theory Spec2Isabelle
  imports Complex_Main "HOL-Library.Sublist" "HOL-Library.Word"
begin

text \<open>
  The repository holds two scripts that keep a static mirror of a live site and check it
  against that site, and a visual regression test.  The sync-and-validate script
  discovers the Routes, synchronizes each (\<open>syncRoute\<close>), and repeats a validation
  round (\<open>validate\<close>) until one passes; the bounded-retry script repairs and validates
  at most three times and writes a Report after each round; the test compares padded
  screenshots.  Network, file system, external tools and the browser are an environment
  given to each function; a thrown error is a value.
\<close>

section \<open>Common data\<close>

text \<open>
  A Route and every other JavaScript string is a \<open>string\<close>; one \<open>char\<close> stands for one
  UTF-16 code unit, which is what \<open>.length\<close> counts.  JavaScript numbers are modelled by
  rationals: the quotients compared against the thresholds \<open>0.99\<close>, \<open>0.1\<close> and \<open>0.5\<close>
  have numerators and denominators far below \<open>2^53\<close> (string lengths, pixel counts), where
  the rounded comparison of doubles agrees with the exact one.  File paths are relative
  to the working directory of the process.
\<close>

type_synonym route = string

datatype error =
    FetchFailed string
  | MissingMain route
  | DomRatioBelow route
  | IOError string
  | CommandFailed string
  | LaunchFailed
  | NavigationFailed string
  | AxeViolations route
  | DomDiff route
  | VisualDiff route rat
  | LighthouseFailed route
  | LibraryError string

datatype page = PageAxe route | PageLocal route | PageLive route

text \<open>
  The mutable world of the sync-and-validate script: the Snapshots written below the
  output root (path and content, oldest first; a later write of a path replaces the
  earlier one), the diff images written, and the processes and page contexts that are
  alive.
\<close>

record state =
  files :: "(string \<times> string) list"
  diffs_written :: "string list"
  servers :: nat
  browsers :: nat
  open_pages :: "page list"

definition BASE_URL :: string where
  "BASE_URL = ''https://genaiglobal.org''"

definition DIST_DIR :: string where
  "DIST_DIR = ''dist''"

definition REPORT_DIR :: string where
  "REPORT_DIR = ''reports/diffs''"

definition PORT :: string where
  "PORT = ''3000''"

definition VISUAL_THRESHOLD :: rat where
  "VISUAL_THRESHOLD = 1 / 10"

definition DOM_THRESHOLD :: rat where
  "DOM_THRESHOLD = 99 / 100"

text \<open>\<open>s.replace(/^[\/]/, '')\<close>, \<open>s.replace(/[\/]$/, '')\<close> and \<open>s.replace(/\//g, '_')\<close>.\<close>

definition strip_leading_slash :: "string \<Rightarrow> string" where
  "strip_leading_slash s =
     (case s of [] \<Rightarrow> [] | c # cs \<Rightarrow> if c = CHR ''/'' then cs else s)"

definition strip_trailing_slash :: "string \<Rightarrow> string" where
  "strip_trailing_slash s =
     (if s = [] then [] else if last s = CHR ''/'' then butlast s else s)"

definition flatten_slashes :: "string \<Rightarrow> string" where
  "flatten_slashes s = map (\<lambda>c. if c = CHR ''/'' then CHR ''_'' else c) s"

text \<open>\<open>s.replace(pat, '')\<close> with a string pattern: the first occurrence is removed.\<close>

fun remove_first :: "string \<Rightarrow> string \<Rightarrow> string" where
  "remove_first pat [] = []"
| "remove_first pat (c # cs) =
     (if prefix pat (c # cs) then drop (length pat) (c # cs) else c # remove_first pat cs)"

text \<open>
  \<open>path.join(a, b)\<close> of Node, for POSIX paths: the non-empty parts are joined with a
  slash and the result is normalised.  Normalising drops empty segments and \<open>.\<close>
  segments, lets a \<open>..\<close> segment remove the segment before it (or keeps it, in a
  relative path with nothing left to remove), keeps a leading and a trailing slash, and
  gives \<open>.\<close> for a path with nothing left.
\<close>

fun split_path :: "string \<Rightarrow> string list" where
  "split_path [] = [[]]"
| "split_path (c # cs) =
     (if c = CHR ''/'' then [] # split_path cs
      else (case split_path cs of [] \<Rightarrow> [[c]] | seg # segs \<Rightarrow> (c # seg) # segs))"

definition add_segment :: "bool \<Rightarrow> string list \<Rightarrow> string \<Rightarrow> string list" where
  "add_segment allowAboveRoot res seg =
     (if seg = [] \<or> seg = ''.'' then res
      else if seg = ''..'' then
        (if res = [] \<or> last res = ''..''
         then (if allowAboveRoot then res @ [''..''] else res)
         else butlast res)
      else res @ [seg])"

fun join_segments :: "string list \<Rightarrow> string" where
  "join_segments [] = []"
| "join_segments [seg] = seg"
| "join_segments (seg # segs) = seg @ ''/'' @ join_segments segs"

definition normalizeString :: "string \<Rightarrow> bool \<Rightarrow> string" where
  "normalizeString path allowAboveRoot =
     join_segments (foldl (add_segment allowAboveRoot) [] (split_path path))"

definition path_normalize :: "string \<Rightarrow> string" where
  "path_normalize path =
     (if path = [] then ''.''
      else
        (let isAbsolute = (hd path = CHR ''/'');
             trailingSeparator = (last path = CHR ''/'');
             p = normalizeString path (hd path \<noteq> CHR ''/'')
         in if p = [] then (if isAbsolute then ''/'' else if trailingSeparator then ''./'' else ''.'')
            else (let q = (if trailingSeparator then p @ ''/'' else p)
                  in if isAbsolute then ''/'' @ q else q)))"

definition path_join :: "string \<Rightarrow> string \<Rightarrow> string" where
  "path_join a b =
     (let joined = (if a = [] then b else if b = [] then a else a @ ''/'' @ b)
      in if joined = [] then ''.'' else path_normalize joined)"

text \<open>
  An effectful step returns its result (\<open>Inl\<close> for a thrown error) together with the
  state it leaves behind; a throw keeps the effects made before it.
\<close>

text \<open>\<open>for (const x of xs) await f(x)\<close>: the first throw leaves the loop.\<close>

fun foreach ::
  "('a \<Rightarrow> 's \<Rightarrow> (error + unit) \<times> 's) \<Rightarrow> 'a list \<Rightarrow> 's \<Rightarrow> (error + unit) \<times> 's" where
  "foreach f [] s = (Inr (), s)"
| "foreach f (x # xs) s =
     (case f x s of (Inl e, s') \<Rightarrow> (Inl e, s') | (Inr u, s') \<Rightarrow> foreach f xs s')"

section \<open>Content Synchronizer: \<open>syncRoute\<close>\<close>

text \<open>
  The environment of one synchronization pass.  \<open>http_get url\<close> is the body of the
  response, \<open>None\<close> when the request fails or the response is not ok;
  \<open>select_main\<close> and \<open>select_footer\<close> are what cheerio finds in a document for
  \<open>$('main, #content').first()\<close> and \<open>$('footer').first()\<close> (the inner markup, \<open>None\<close>
  when no element matches); \<open>read_file\<close> reads the shared fragments (\<open>None\<close> when
  the file cannot be read).  Creating the output directory and writing the Snapshot are
  taken to succeed.
\<close>

record senv =
  http_get :: "string \<Rightarrow> string option"
  select_main :: "string \<Rightarrow> string option"
  select_footer :: "string \<Rightarrow> string option"
  read_file :: "string \<Rightarrow> string option"

definition fetchText :: "(string \<Rightarrow> string option) \<Rightarrow> string \<Rightarrow> error + string" where
  "fetchText get url = (case get url of None \<Rightarrow> Inl (FetchFailed url) | Some t \<Rightarrow> Inr t)"

definition route_url :: "route \<Rightarrow> string" where
  "route_url r =
     (let u = strip_trailing_slash (BASE_URL @ ''/'' @ r) in if u = [] then BASE_URL else u)"

definition snapshot_doc :: "string \<Rightarrow> string \<Rightarrow> string \<Rightarrow> string \<Rightarrow> string" where
  "snapshot_doc headInc topInc mainHtml footer =
     ''<!DOCTYPE html><html lang=\"en\"><head>'' @ headInc @ ''</head><body>'' @ topInc
       @ mainHtml @ footer @ ''</body></html>''"

text \<open>
  \<open>(main.html() || '').length ? (main.html().length / (main.html().length)) : 1\<close>
\<close>

definition completeness_ratio :: "string \<Rightarrow> rat" where
  "completeness_ratio mainHtml =
     (if length mainHtml \<noteq> 0
      then rat_of_nat (length mainHtml) / rat_of_nat (length mainHtml) else 1)"

definition syncRoute :: "senv \<Rightarrow> route \<Rightarrow> state \<Rightarrow> (error + rat) \<times> state" where
  "syncRoute env r s =
     (case fetchText (http_get env) (route_url r) of
        Inl e \<Rightarrow> (Inl e, s)
      | Inr html \<Rightarrow>
         (case select_main env html of
            None \<Rightarrow> (Inl (MissingMain r), s)
          | Some mainHtml \<Rightarrow>
             (let footer = (case select_footer env html of None \<Rightarrow> [] | Some f \<Rightarrow> f) in
              case read_file env ''head-section.html'' of
                None \<Rightarrow> (Inl (IOError ''head-section.html''), s)
              | Some headInc \<Rightarrow>
                 (case read_file env ''top-panel.html'' of
                    None \<Rightarrow> (Inl (IOError ''top-panel.html''), s)
                  | Some topInc \<Rightarrow>
                     (let doc = snapshot_doc headInc topInc mainHtml footer;
                          outDir = path_join DIST_DIR r;
                          s' = s\<lparr>files := files s @ [(path_join outDir ''index.html'', doc)]\<rparr>;
                          ratio = completeness_ratio mainHtml
                      in if ratio < DOM_THRESHOLD then (Inl (DomRatioBelow r), s')
                         else (Inr ratio, s'))))))"

text \<open>The inputs on which every step before the ratio succeeds.\<close>

definition sync_ok :: "senv \<Rightarrow> route \<Rightarrow> bool" where
  "sync_ok env r =
     (case http_get env (route_url r) of
        None \<Rightarrow> False
      | Some html \<Rightarrow>
          select_main env html \<noteq> None \<and> read_file env ''head-section.html'' \<noteq> None
          \<and> read_file env ''top-panel.html'' \<noteq> None)"

text \<open>An environment whose live page has an empty primary content region.\<close>

definition empty_main_env :: senv where
  "empty_main_env =
     \<lparr>http_get = (\<lambda>u. Some ''<main></main>''), select_main = (\<lambda>h. Some []),
      select_footer = (\<lambda>h. None), read_file = (\<lambda>p. Some ''<meta>'')\<rparr>"

definition state0 :: state where
  "state0 = \<lparr>files = [], diffs_written = [], servers = 0, browsers = 0, open_pages = []\<rparr>"

section \<open>Route Discovery: \<open>discoverRoutes\<close>\<close>

text \<open>
  The environment of discovery.  \<open>fetch_body url\<close> is the body of the response (\<open>None\<close>
  when the request fails or is not ok); \<open>sitemap_locs xml\<close> is the list of the texts of
  the \<open>url > loc\<close> elements cheerio finds in the body of the index; \<open>anchor_hrefs html\<close>
  is the list of the \<open>href\<close> values of the \<open>a[href]\<close> elements of the root document.
  Loading a body with cheerio does not throw, whatever the body is: in a body that is
  not a well-formed index it finds fewer elements, or none.  So the \<open>try\<close> block throws
  exactly when the index cannot be fetched.
\<close>

record denv =
  fetch_body :: "string \<Rightarrow> string option"
  sitemap_locs :: "string \<Rightarrow> string list"
  anchor_hrefs :: "string \<Rightarrow> string list"

text \<open>
  A JavaScript \<open>Set\<close> keeps its members in insertion order; \<open>Array.from\<close> lists them
  in that order.
\<close>

definition set_add :: "'a list \<Rightarrow> 'a \<Rightarrow> 'a list" where
  "set_add xs x = (if x \<in> set xs then xs else xs @ [x])"

definition array_from_set :: "'a list \<Rightarrow> 'a list" where
  "array_from_set xs = foldl set_add [] xs"

definition normalize_loc :: "string \<Rightarrow> route" where
  "normalize_loc loc = strip_trailing_slash (strip_leading_slash (remove_first BASE_URL loc))"

definition normalize_href :: "string \<Rightarrow> route" where
  "normalize_href href = strip_trailing_slash (strip_leading_slash href)"

definition add_href :: "route list \<Rightarrow> string \<Rightarrow> route list" where
  "add_href routes href =
     (if href \<noteq> [] \<and> prefix ''/'' href then set_add routes (normalize_href href) else routes)"

text \<open>The \<open>try\<close> block up to its \<open>return\<close>: the entries found in the index, if it is fetched.\<close>

definition read_index :: "denv \<Rightarrow> string list option" where
  "read_index env =
     (case fetchText (fetch_body env) (BASE_URL @ ''/sitemap.xml'') of
        Inl e \<Rightarrow> None
      | Inr xml \<Rightarrow> Some (sitemap_locs env xml))"

definition discoverRoutes :: "denv \<Rightarrow> error + route list" where
  "discoverRoutes env =
     (case read_index env of
        Some locs \<Rightarrow> Inr (array_from_set (map normalize_loc locs))
      | None \<Rightarrow>
         (case fetchText (fetch_body env) BASE_URL of
            Inl e \<Rightarrow> Inl e
          | Inr html \<Rightarrow> Inr (foldl add_href [[]] (anchor_hrefs env html))))"

text \<open>
  The Route of the data model, in the spec's words: a relative path with no leading and
  no trailing slash.
\<close>

definition spec_normalized_route :: "route \<Rightarrow> bool" where
  "spec_normalized_route r = (\<not> prefix ''/'' r \<and> \<not> suffix ''/'' r)"

text \<open>
  A site whose index is unreachable and whose root document links to a page of its own
  and, by a protocol-relative link, to another host.
\<close>

definition crawl_env :: denv where
  "crawl_env =
     \<lparr>fetch_body = (\<lambda>u. if u = ''https://genaiglobal.org'' then Some ''<html>'' else None),
      sitemap_locs = (\<lambda>x. []),
      anchor_hrefs = (\<lambda>h. [''/about-us/'', ''//cdn.example.org/lib'', ''/about-us'', ''#top''])\<rparr>"

text \<open>
  A site whose index is fetched and lists the root, one page twice (with and without a
  trailing slash) and another page.
\<close>

definition listed_env :: denv where
  "listed_env =
     \<lparr>fetch_body = (\<lambda>u. Some ''<urlset>''),
      sitemap_locs = (\<lambda>x. [''https://genaiglobal.org/'', ''https://genaiglobal.org/about-us/'',
                            ''https://genaiglobal.org/about-us'', ''https://genaiglobal.org/events'']),
      anchor_hrefs = (\<lambda>h. [''/contact''])\<rparr>"

text \<open>
  A site whose index is fetched but is not a well-formed index, so that no entry is found
  in it, and whose root document links to a page.
\<close>

definition malformed_index_env :: denv where
  "malformed_index_env =
     \<lparr>fetch_body = (\<lambda>u. if u = ''https://genaiglobal.org/sitemap.xml'' then Some ''<urlset><url><loc''
                         else Some ''<html>''),
      sitemap_locs = (\<lambda>x. []),
      anchor_hrefs = (\<lambda>h. [''/about-us''])\<rparr>"

section \<open>Validation round of the sync-and-validate script: \<open>validate\<close>\<close>

text \<open>A decoded PNG: its dimensions and its RGBA bytes, row by row.\<close>

type_synonym byte = "8 word"

record image =
  width :: nat
  height :: nat
  data :: "byte list"

text \<open>
  The environment of one round: what the external tools and the browser answer.
  \<open>walk_dist\<close> is the list of \<open>.html\<close> files found below the output root (\<open>None\<close> when
  reading a directory throws); \<open>cmd_ok cmd\<close> tells whether the command exits with
  status zero (\<open>execSync\<close> throws otherwise); \<open>launch_ok\<close> whether the browser engine
  starts; \<open>goto_ok url\<close> whether the navigation to \<open>url\<close> resolves;
  \<open>axe_violations url\<close> is \<open>violations.length\<close>; \<open>main_html url\<close> the inner markup of
  the element matching \<open>main, #content\<close> on the page loaded from \<open>url\<close> (\<open>None\<close> when
  \<open>$eval\<close> rejects because nothing matches); \<open>screenshot url\<close> the decoded full-page
  screenshot; \<open>pixelmatch\<close> the library call on two buffers, a width and a height,
  giving the number of differing pixels or throwing; \<open>fcp_score\<close> and \<open>a11y_score\<close> the
  two Lighthouse scores (\<open>None\<close> for \<open>null\<close>).  Spawning the server, opening and closing
  a page, taking and decoding a screenshot, writing the diff image and the Lighthouse run
  itself are taken to succeed.
\<close>

record venv =
  walk_dist :: "string list option"
  cmd_ok :: "string \<Rightarrow> bool"
  launch_ok :: bool
  goto_ok :: "string \<Rightarrow> bool"
  axe_violations :: "string \<Rightarrow> nat"
  main_html :: "string \<Rightarrow> string option"
  screenshot :: "string \<Rightarrow> image"
  pixelmatch :: "byte list \<Rightarrow> byte list \<Rightarrow> nat \<Rightarrow> nat \<Rightarrow> error + nat"
  fcp_score :: "string \<Rightarrow> rat option"
  a11y_score :: "string \<Rightarrow> rat option"

definition local_url :: "route \<Rightarrow> string" where
  "local_url r = ''http://localhost:'' @ PORT @ ''/'' @ r"

definition live_url :: "route \<Rightarrow> string" where
  "live_url r = BASE_URL @ ''/'' @ r"

definition html_validator_cmd :: "string \<Rightarrow> string" where
  "html_validator_cmd f = ''npx html-validator --quiet --file=\"'' @ f @ ''\"''"

definition stylelint_cmd :: string where
  "stylelint_cmd = ''npx stylelint \"'' @ DIST_DIR @ ''/**/*.css\"''"

definition eslint_cmd :: string where
  "eslint_cmd = ''npx eslint \"'' @ DIST_DIR @ ''/**/*.js\"''"

definition cspell_cmd :: string where
  "cspell_cmd = ''npx cspell \"'' @ DIST_DIR @ ''/**/*.{html,js,md}\"''"

definition pa11y_cmd :: "route \<Rightarrow> string" where
  "pa11y_cmd r = ''npx pa11y '' @ local_url r"

definition blc_cmd :: string where
  "blc_cmd = ''npx blc http://localhost:'' @ PORT @ '' -ro''"

text \<open>\<open>run(cmd)\<close>: \<open>execSync\<close> throws when the command fails.\<close>

definition run :: "venv \<Rightarrow> string \<Rightarrow> state \<Rightarrow> (error + unit) \<times> state" where
  "run env cmd s = (if cmd_ok env cmd then (Inr (), s) else (Inl (CommandFailed cmd), s))"

definition open_page :: "page \<Rightarrow> state \<Rightarrow> state" where
  "open_page p s = s\<lparr>open_pages := open_pages s @ [p]\<rparr>"

definition close_page :: "page \<Rightarrow> state \<Rightarrow> state" where
  "close_page p s = s\<lparr>open_pages := remove1 p (open_pages s)\<rparr>"

text \<open>\<open>await page.$eval('main, #content', el => el.innerHTML).catch(() => '')\<close>\<close>

definition html_or_empty :: "string option \<Rightarrow> string" where
  "html_or_empty h = (case h of None \<Rightarrow> [] | Some t \<Rightarrow> t)"

text \<open>The aXe pass over one Route (lines 98 to 104).\<close>

definition axe_route :: "venv \<Rightarrow> route \<Rightarrow> state \<Rightarrow> (error + unit) \<times> state" where
  "axe_route env r s =
     (let s1 = open_page (PageAxe r) s in
      if goto_ok env (local_url r) then
        (if axe_violations env (local_url r) \<noteq> 0 then (Inl (AxeViolations r), s1)
         else (Inr (), close_page (PageAxe r) s1))
      else (Inl (NavigationFailed (local_url r)), s1))"

text \<open>
  The structural check of line 119:
  \<open>if (!liveHtml || localHtml.length / liveHtml.length < DOM_THRESHOLD) throw ...\<close>
\<close>

definition domDiff :: "route \<Rightarrow> string \<Rightarrow> string \<Rightarrow> error + unit" where
  "domDiff r localHtml liveHtml =
     (if liveHtml = [] \<or>
         rat_of_nat (length localHtml) / rat_of_nat (length liveHtml) < DOM_THRESHOLD
      then Inl (DomDiff r) else Inr ())"

text \<open>
  The visual check of lines 121 to 129: the width and the height are those of the local
  screenshot, the two buffers go to \<open>pixelmatch\<close> as they are, the diff image is written,
  and only then the percentage is tested.
\<close>

definition diff_path :: "route \<Rightarrow> string" where
  "diff_path r = path_join REPORT_DIR (flatten_slashes r @ ''.png'')"

definition visualDiff :: "venv \<Rightarrow> route \<Rightarrow> image \<Rightarrow> image \<Rightarrow> state \<Rightarrow> (error + rat) \<times> state" where
  "visualDiff env r img1 img2 s =
     (case pixelmatch env (data img1) (data img2) (width img1) (height img1) of
        Inl e \<Rightarrow> (Inl e, s)
      | Inr diffPixels \<Rightarrow>
         (let pct = rat_of_nat diffPixels / rat_of_nat (width img1 * height img1) * 100;
              s' = s\<lparr>diffs_written := diffs_written s @ [diff_path r]\<rparr>
          in if pct > VISUAL_THRESHOLD then (Inl (VisualDiff r pct), s') else (Inr pct, s')))"

text \<open>The body of the DOM and visual diff loop for one Route (lines 110 to 131).\<close>

definition diff_route :: "venv \<Rightarrow> route \<Rightarrow> state \<Rightarrow> (error + unit) \<times> state" where
  "diff_route env r s =
     (let s1 = open_page (PageLocal r) s in
      if goto_ok env (local_url r) then
        (let localHtml = html_or_empty (main_html env (local_url r));
             localShot = screenshot env (local_url r);
             s2 = open_page (PageLive r) s1
         in if goto_ok env (live_url r) then
              (let liveHtml = html_or_empty (main_html env (live_url r)) in
               case domDiff r localHtml liveHtml of
                 Inl e \<Rightarrow> (Inl e, s2)
               | Inr u \<Rightarrow>
                  (case visualDiff env r localShot (screenshot env (live_url r)) s2 of
                     (Inl e, s3) \<Rightarrow> (Inl e, s3)
                   | (Inr pct, s3) \<Rightarrow>
                       (Inr (), close_page (PageLive r) (close_page (PageLocal r) s3))))
            else (Inl (NavigationFailed (live_url r)), s2))
      else (Inl (NavigationFailed (local_url r)), s1))"

text \<open>
  The Lighthouse test of line 138; in \<open>score < 0.5\<close> a \<open>null\<close> score counts as 0.
\<close>

definition lighthouse_route :: "venv \<Rightarrow> route \<Rightarrow> state \<Rightarrow> (error + unit) \<times> state" where
  "lighthouse_route env r s =
     (if fcp_score env (local_url r) = Some 0 \<or>
         (case a11y_score env (local_url r) of None \<Rightarrow> True | Some x \<Rightarrow> x < 1 / 2)
      then (Inl (LighthouseFailed r), s) else (Inr (), s))"

text \<open>The stages of a round run in order; a throw of one ends the round.\<close>

definition in_order :: "('s \<Rightarrow> (error + unit) \<times> 's) list \<Rightarrow> 's \<Rightarrow> (error + unit) \<times> 's" where
  "in_order stages s = foreach (\<lambda>stage. stage) stages s"

definition static_checks :: "venv \<Rightarrow> state \<Rightarrow> (error + unit) \<times> state" where
  "static_checks env s =
     (case walk_dist env of
        None \<Rightarrow> (Inl (IOError DIST_DIR), s)
      | Some htmlFiles \<Rightarrow>
          in_order
            [foreach (\<lambda>f. run env (html_validator_cmd f)) htmlFiles,
             run env stylelint_cmd, run env eslint_cmd, run env cspell_cmd] s)"

definition launch :: "venv \<Rightarrow> state \<Rightarrow> (error + unit) \<times> state" where
  "launch env s =
     (if launch_ok env then (Inr (), s\<lparr>browsers := Suc (browsers s)\<rparr>) else (Inl LaunchFailed, s))"

definition validate :: "venv \<Rightarrow> route list \<Rightarrow> state \<Rightarrow> (error + unit) \<times> state" where
  "validate env routes s =
     in_order
       [static_checks env,
        (\<lambda>s. (Inr (), s\<lparr>servers := Suc (servers s)\<rparr>)),
        foreach (\<lambda>r. run env (pa11y_cmd r)) routes,
        launch env,
        foreach (axe_route env) routes,
        run env blc_cmd,
        foreach (diff_route env) routes,
        foreach (lighthouse_route env) routes,
        (\<lambda>s. (Inr (), s\<lparr>browsers := browsers s - 1, servers := servers s - 1\<rparr>))] s"

text \<open>
  Environments for concrete rounds: every tool succeeds and every page has the same
  markup and the same one-pixel screenshot, except where a field is changed.
\<close>

definition pixel_image :: image where
  "pixel_image = \<lparr>width = 1, height = 1, data = [0, 0, 0, 255]\<rparr>"

definition passing_env :: venv where
  "passing_env =
     \<lparr>walk_dist = Some [], cmd_ok = (\<lambda>c. True), launch_ok = True, goto_ok = (\<lambda>u. True),
      axe_violations = (\<lambda>u. 0), main_html = (\<lambda>u. Some ''<h1>Hi</h1>''),
      screenshot = (\<lambda>u. pixel_image), pixelmatch = (\<lambda>a b w h. Inr 0),
      fcp_score = (\<lambda>u. Some 1), a11y_score = (\<lambda>u. Some 1)\<rparr>"

text \<open>The live page of Route \<open>a\<close> has no primary content region.\<close>

definition live_a_without_main :: venv where
  "live_a_without_main =
     passing_env\<lparr>main_html := (\<lambda>u. if u = ''https://genaiglobal.org/a'' then None
                                   else Some ''<h1>Hi</h1>'')\<rparr>"

text \<open>Every pixel of every page differs.\<close>

definition all_pixels_differ :: venv where
  "all_pixels_differ = passing_env\<lparr>pixelmatch := (\<lambda>a b w h. Inr (w * h))\<rparr>"

text \<open>The local page of Route \<open>a\<close> lacks a character of the live markup: 10 of 11.\<close>

definition local_truncated :: venv where
  "local_truncated =
     passing_env\<lparr>main_html := (\<lambda>u. if u = ''http://localhost:3000/a'' then Some ''<h1>H</h1>''
                                  else Some ''<h1>Hi</h1>'')\<rparr>"

section \<open>Visual regression test: padding before the pixel diff\<close>

text \<open>
  The two calls of the PNG library the test uses: \<open>new PNG({ width, height })\<close> is a
  zero-filled canvas, and \<open>PNG.bitblt(src, dst, 0, 0, src.width, src.height, 0, 0)\<close>
  copies the rows of \<open>src\<close> over the beginning of the rows of \<open>dst\<close>, refusing a source
  that does not fit.
\<close>

definition new_png :: "nat \<Rightarrow> nat \<Rightarrow> image" where
  "new_png w h = \<lparr>width = w, height = h, data = replicate (4 * w * h) 0\<rparr>"

definition row_of :: "image \<Rightarrow> nat \<Rightarrow> byte list" where
  "row_of img y = take (4 * width img) (drop (4 * width img * y) (data img))"

definition bitblt :: "image \<Rightarrow> image \<Rightarrow> error + image" where
  "bitblt src dst =
     (if width dst < width src \<or> height dst < height src
      then Inl (LibraryError ''bitblt writing outside image'')
      else Inr (dst\<lparr>data :=
        concat (map (\<lambda>y. if y < height src
                          then row_of src y @ drop (length (row_of src y)) (row_of dst y)
                          else row_of dst y) [0..<height dst])\<rparr>))"

definition threshold :: rat where
  "threshold = 1 / 10"

text \<open>
  Lines 50 to 72 of the test: both screenshots are padded onto a canvas of the maximum
  width and height, then compared; the result is \<open>(diffPixels, diffPercent, passed)\<close>.
\<close>

definition comparePage ::
  "(byte list \<Rightarrow> byte list \<Rightarrow> nat \<Rightarrow> nat \<Rightarrow> error + nat) \<Rightarrow> image \<Rightarrow> image
    \<Rightarrow> error + nat \<times> rat \<times> bool" where
  "comparePage pm localPNG livePNG =
     (let w = max (width localPNG) (width livePNG);
          h = max (height localPNG) (height livePNG)
      in case bitblt localPNG (new_png w h) of
           Inl e \<Rightarrow> Inl e
         | Inr localPadded \<Rightarrow>
            (case bitblt livePNG (new_png w h) of
               Inl e \<Rightarrow> Inl e
             | Inr livePadded \<Rightarrow>
                (case pm (data localPadded) (data livePadded) w h of
                   Inl e \<Rightarrow> Inl e
                 | Inr diffPixels \<Rightarrow>
                    (let totalPixels = w * h;
                         diffPercent = rat_of_nat diffPixels / rat_of_nat totalPixels * 100;
                         passed = (diffPercent \<le> threshold)
                     in Inr (diffPixels, diffPercent, passed)))))"

text \<open>
  A stand-in for \<open>pixelmatch\<close> in concrete rounds: it refuses buffers of different sizes
  or of a size other than the one announced, as the library does, and counts the pixels
  whose four bytes are not all equal.
\<close>

fun count_diff :: "byte list \<Rightarrow> byte list \<Rightarrow> nat" where
  "count_diff (r1 # g1 # b1 # a1 # xs) (r2 # g2 # b2 # a2 # ys) =
     (if r1 = r2 \<and> g1 = g2 \<and> b1 = b2 \<and> a1 = a2 then 0 else 1) + count_diff xs ys"
| "count_diff xs ys = 0"

definition exact_pixelmatch :: "byte list \<Rightarrow> byte list \<Rightarrow> nat \<Rightarrow> nat \<Rightarrow> error + nat" where
  "exact_pixelmatch img1 img2 w h =
     (if length img1 = length img2
      then (if length img1 = w * h * 4 then Inr (count_diff img1 img2)
            else Inl (LibraryError ''Image data size does not match width/height.''))
      else Inl (LibraryError ''Image sizes do not match.''))"

text \<open>The live page of Route \<open>a\<close> is one pixel taller than the local one.\<close>

definition tall_image :: image where
  "tall_image = \<lparr>width = 1, height = 2, data = [0, 0, 0, 255, 0, 0, 0, 255]\<rparr>"

definition taller_live :: venv where
  "taller_live =
     passing_env\<lparr>screenshot := (\<lambda>u. if u = ''https://genaiglobal.org/a'' then tall_image
                                   else pixel_image),
                 pixelmatch := exact_pixelmatch\<rparr>"

text \<open>
  The live page of Route \<open>blog/post\<close> is a white pixel where the local page is a black
  one; every other page is the same black pixel on both sides.
\<close>

definition white_pixel :: image where
  "white_pixel = \<lparr>width = 1, height = 1, data = [255, 255, 255, 255]\<rparr>"

definition white_live :: venv where
  "white_live =
     passing_env\<lparr>screenshot := (\<lambda>u. if u = ''https://genaiglobal.org/blog/post'' then white_pixel
                                   else pixel_image),
                 pixelmatch := exact_pixelmatch\<rparr>"

section \<open>Bounded-retry script: \<open>runDomDiff\<close>, \<open>summarize\<close> and the attempt loop\<close>

text \<open>An entry of the Report; every check kind has a list of them.\<close>

datatype entry =
    FileEntry string string
  | StderrEntry string
  | PageEntry string string
  | DomEntry string "error option"
  | VisualEntry string rat

record results =
  html_res :: "entry list"
  css_res :: "entry list"
  js_res :: "entry list"
  accessibility_res :: "entry list"
  links_res :: "entry list"
  spell_res :: "entry list"
  dom_res :: "entry list"
  visual_res :: "entry list"
  lighthouse_res :: "entry list"

definition no_results :: results where
  "no_results =
     \<lparr>html_res = [], css_res = [], js_res = [], accessibility_res = [], links_res = [],
      spell_res = [], dom_res = [], visual_res = [], lighthouse_res = []\<rparr>"

text \<open>\<open>Object.values(res).reduce((a, arr) => a + arr.length, 0)\<close>\<close>

definition summarize :: "results \<Rightarrow> nat" where
  "summarize res =
     foldl (\<lambda>a arr. a + length arr) 0
       [html_res res, css_res res, js_res res, accessibility_res res, links_res res,
        spell_res res, dom_res res, visual_res res, lighthouse_res res]"

text \<open>
  The environment of the structural stage.  The statement that binds \<open>browser\<close> at the
  head of \<open>runDomDiff\<close> is not in the source file; whether the engine is there is the
  parameter \<open>browser_ok\<close>.  \<open>nav_ok url\<close> tells whether the navigation resolves and
  \<open>content_html url\<close> is the inner markup of \<open>#content\<close> on the page loaded from \<open>url\<close>
  (\<open>None\<close> when nothing matches).
\<close>

record penv =
  browser_ok :: bool
  nav_ok :: "string \<Rightarrow> bool"
  content_html :: "string \<Rightarrow> string option"

text \<open>
  The body of the loop of \<open>runDomDiff\<close> for one page: the \<open>try\<close> block compares the two
  markups for equality and records a difference, the \<open>catch\<close> block records the error.
\<close>

definition dom_page :: "penv \<Rightarrow> string \<Rightarrow> results \<Rightarrow> results" where
  "dom_page env page res =
     (if nav_ok env (local_url page) then
        (let localHtml = html_or_empty (content_html env (local_url page)) in
         if nav_ok env (live_url page) then
           (let liveHtml = html_or_empty (content_html env (live_url page)) in
            if localHtml \<noteq> liveHtml then res\<lparr>dom_res := dom_res res @ [DomEntry page None]\<rparr>
            else res)
         else res\<lparr>dom_res := dom_res res
                 @ [DomEntry page (Some (NavigationFailed (live_url page)))]\<rparr>)
      else res\<lparr>dom_res := dom_res res
              @ [DomEntry page (Some (NavigationFailed (local_url page)))]\<rparr>)"

definition runDomDiff :: "penv \<Rightarrow> string list \<Rightarrow> results \<Rightarrow> error + results" where
  "runDomDiff env pages res =
     (if browser_ok env then Inr (foldl (\<lambda>acc page. dom_page env page acc) res pages)
      else Inl LaunchFailed)"

text \<open>A page passes the structural stage when both navigations resolve and the markups agree.\<close>

definition dom_page_passes :: "penv \<Rightarrow> string \<Rightarrow> bool" where
  "dom_page_passes env page =
     (nav_ok env (local_url page) \<and> nav_ok env (live_url page) \<and>
      html_or_empty (content_html env (local_url page))
        = html_or_empty (content_html env (live_url page)))"

fun entry_page :: "entry \<Rightarrow> string" where
  "entry_page (FileEntry f e) = f"
| "entry_page (StderrEntry e) = []"
| "entry_page (PageEntry p e) = p"
| "entry_page (DomEntry p e) = p"
| "entry_page (VisualEntry p pct) = p"

text \<open>
  The environment of the attempt loop: for each attempt, the error \<open>fixPhase\<close> throws
  (\<open>None\<close> when it returns) and what \<open>validationPhase\<close> returns or throws.
\<close>

record renv =
  fixPhase :: "nat \<Rightarrow> error option"
  validationPhase :: "nat \<Rightarrow> error + results"

text \<open>
  How the process ends: \<open>process.exit(code)\<close>, or a rejection nothing handles.
\<close>

datatype outcome = Exited nat | Unhandled error

text \<open>
  The \<open>for\<close> loop of the script; the second component lists the Reports written to
  \<open>validation-report.json\<close>, oldest first (each write replaces the file).
\<close>

function attempt_loop :: "renv \<Rightarrow> nat \<Rightarrow> nat \<Rightarrow> results list \<Rightarrow> outcome \<times> results list" where
  "attempt_loop env MAX_ATTEMPTS attempt reports =
     (if attempt \<le> MAX_ATTEMPTS then
        (case fixPhase env attempt of
           Some e \<Rightarrow> (Unhandled e, reports)
         | None \<Rightarrow>
            (case validationPhase env attempt of
               Inl e \<Rightarrow> (Unhandled e, reports)
             | Inr res \<Rightarrow>
                (let reports' = reports @ [res]; failures = summarize res in
                 if failures = 0 then (Exited 0, reports')
                 else attempt_loop env MAX_ATTEMPTS (Suc attempt) reports')))
      else (Exited 1, reports))"
  by pat_completeness auto
termination
  by (relation "measure (\<lambda>(env, MAX_ATTEMPTS, attempt, reports). Suc MAX_ATTEMPTS - attempt)") auto

definition MAX_ATTEMPTS :: nat where
  "MAX_ATTEMPTS = 3"

definition bounded_main :: "renv \<Rightarrow> outcome \<times> results list" where
  "bounded_main env = attempt_loop env MAX_ATTEMPTS 1 []"

text \<open>Concrete environments: a site with one page that differs, and rounds that always fail.\<close>

definition two_pages_env :: penv where
  "two_pages_env =
     \<lparr>browser_ok = True, nav_ok = (\<lambda>u. u \<noteq> ''https://genaiglobal.org/gone.html''),
      content_html = (\<lambda>u. if u = ''https://genaiglobal.org/index.html'' then Some ''<p>new</p>''
                           else Some ''<p>old</p>'')\<rparr>"

definition one_failure :: results where
  "one_failure = no_results\<lparr>dom_res := [DomEntry ''index.html'' None]\<rparr>"

definition always_failing :: renv where
  "always_failing = \<lparr>fixPhase = (\<lambda>a. None), validationPhase = (\<lambda>a. Inr one_failure)\<rparr>"

section \<open>Unbounded-retry script: the main loop\<close>

text \<open>
  The environment of a whole run: discovery, the synchronization passes (pass 0 is the
  initial one, pass \<open>n\<close> the one that follows the failed round \<open>n\<close>) and the rounds,
  counted from 1.
\<close>

record menv =
  discovery :: denv
  sync_pass :: "nat \<Rightarrow> senv"
  round_env :: "nat \<Rightarrow> venv"

text \<open>\<open>for (const r of routes) await syncRoute(r)\<close>\<close>

definition sync_all :: "senv \<Rightarrow> route list \<Rightarrow> state \<Rightarrow> (error + unit) \<times> state" where
  "sync_all env routes s =
     foreach (\<lambda>r s. case syncRoute env r s of
                       (Inl e, s') \<Rightarrow> (Inl e, s')
                     | (Inr ratio, s') \<Rightarrow> (Inr (), s')) routes s"

text \<open>
  The \<open>while (!validated)\<close> loop, entered at round \<open>n\<close>.  It may run forever; when it
  ends, the result is the exit code of the process, the number of rounds run and the
  final state.  An error thrown by a re-synchronization inside the \<open>catch\<close> block
  reaches the outer \<open>catch\<close>, which exits with code 1.
\<close>

partial_function (option) retry_loop ::
  "menv \<Rightarrow> route list \<Rightarrow> nat \<Rightarrow> state \<Rightarrow> (nat \<times> nat \<times> state) option" where
  "retry_loop env routes n s =
     (case validate (round_env env n) routes s of
        (Inr u, s') \<Rightarrow> Some (0, n, s')
      | (Inl err, s') \<Rightarrow>
         (case sync_all (sync_pass env n) routes s' of
            (Inl e, s'') \<Rightarrow> Some (1, n, s'')
          | (Inr u, s'') \<Rightarrow> retry_loop env routes (Suc n) s''))"

text \<open>\<open>fsp.rm(DIST_DIR, { recursive: true, force: true })\<close>\<close>

definition rm_dist :: "state \<Rightarrow> state" where
  "rm_dist s = s\<lparr>files := filter (\<lambda>(p, doc). \<not> prefix (DIST_DIR @ ''/'') p) (files s)\<rparr>"

definition main :: "menv \<Rightarrow> state \<Rightarrow> (nat \<times> nat \<times> state) option" where
  "main env s =
     (case discoverRoutes (discovery env) of
        Inl e \<Rightarrow> Some (1, 0, s)
      | Inr routes \<Rightarrow>
         (case sync_all (sync_pass env 0) routes (rm_dist s) of
            (Inl e, s') \<Rightarrow> Some (1, 0, s')
          | (Inr u, s') \<Rightarrow> retry_loop env routes 1 s'))"

text \<open>The verdict of round \<open>n\<close>: no check of the round threw.\<close>

definition round_passes :: "menv \<Rightarrow> route list \<Rightarrow> nat \<Rightarrow> bool" where
  "round_passes env routes n = (fst (validate (round_env env n) routes state0) = Inr ())"

text \<open>The Snapshot paths written by one synchronization pass over the Routes.\<close>

definition snapshot_paths :: "route list \<Rightarrow> string list" where
  "snapshot_paths routes = map (\<lambda>r. path_join (path_join DIST_DIR r) ''index.html'') routes"

text \<open>
  Concrete runs over the Routes \<open>''''\<close> and \<open>about-us\<close>: the live site is reachable and
  has a primary content region; the first round fails its visual check and every later
  round passes.  In the second run the site cannot be fetched after the first round.
\<close>

definition site_env :: senv where
  "site_env =
     \<lparr>http_get = (\<lambda>u. Some ''<main><h1>Hi</h1></main>''), select_main = (\<lambda>h. Some ''<h1>Hi</h1>''),
      select_footer = (\<lambda>h. None), read_file = (\<lambda>p. Some ''<meta>'')\<rparr>"

definition index_env :: denv where
  "index_env =
     \<lparr>fetch_body = (\<lambda>u. Some ''<urlset>''),
      sitemap_locs = (\<lambda>x. [''https://genaiglobal.org/'', ''https://genaiglobal.org/about-us/'']),
      anchor_hrefs = (\<lambda>h. [])\<rparr>"

definition fails_once :: menv where
  "fails_once =
     \<lparr>discovery = index_env, sync_pass = (\<lambda>k. site_env),
      round_env = (\<lambda>n. if n = 1 then all_pixels_differ else passing_env)\<rparr>"

definition site_down_after_first_round :: menv where
  "site_down_after_first_round =
     fails_once\<lparr>sync_pass := (\<lambda>k. if k = 0 then site_env else site_env\<lparr>http_get := (\<lambda>u. None)\<rparr>)\<rparr>"

section \<open>Properties of the path functions\<close>

lemmas path_defs = path_join_def path_normalize_def normalizeString_def add_segment_def Let_def

lemma flatten_slashes_flat: "CHR ''/'' \<notin> set (flatten_slashes r)"
  by (induction r) (simp_all add: flatten_slashes_def)

lemma split_path_not_Nil: "split_path s \<noteq> []"
  by (induction s) (simp_all split: list.splits)

lemma split_path_no_slash: "CHR ''/'' \<notin> set n \<Longrightarrow> split_path n = [n]"
  by (induction n) auto

lemma split_path_append: "split_path (a @ CHR ''/'' # b) = split_path a @ split_path b"
  by (induction a) (simp_all add: split_path_not_Nil split: list.splits)

lemma path_join_file_name:
  assumes "CHR ''/'' \<notin> set n" and "n \<noteq> []" and "n \<noteq> ''.''" and "n \<noteq> ''..''"
  shows "path_join REPORT_DIR n = REPORT_DIR @ ''/'' @ n"
proof -
  let ?p = "''reports/diffs'' @ CHR ''/'' # n"
  have segs: "split_path ?p = [''reports'', ''diffs'', n]"
    unfolding split_path_append by (simp add: split_path_no_slash [OF assms(1)])
  have "last n \<noteq> CHR ''/''"
    using assms(1) last_in_set [OF assms(2)] by auto
  then have last: "last ?p \<noteq> CHR ''/''"
    using assms(2) by simp
  have fold: "foldl (add_segment True) [] [''reports'', ''diffs'', n] = [''reports'', ''diffs'', n]"
    using assms(2,3,4) by (simp add: add_segment_def)
  have norm: "normalizeString ?p True = ?p"
    unfolding normalizeString_def segs fold by simp
  have hd: "hd ?p \<noteq> CHR ''/''" and ne: "?p \<noteq> []"
    by simp_all
  have "path_normalize ?p = ?p"
    unfolding path_normalize_def Let_def
    by (simp only: hd last ne norm if_False if_True simp_thms)
  then show ?thesis
    using assms(2) by (simp add: path_join_def REPORT_DIR_def Let_def)
qed

lemma diff_path_eq: "diff_path r = REPORT_DIR @ ''/'' @ flatten_slashes r @ ''.png''"
  unfolding diff_path_def
proof (rule path_join_file_name)
  show "CHR ''/'' \<notin> set (flatten_slashes r @ ''.png'')"
    using flatten_slashes_flat [of r] by simp
  show "flatten_slashes r @ ''.png'' \<noteq> []" by simp
  have long: "4 \<le> length (flatten_slashes r @ ''.png'')" by simp
  show "flatten_slashes r @ ''.png'' \<noteq> ''.''"
  proof
    assume "flatten_slashes r @ ''.png'' = ''.''"
    then have "length (flatten_slashes r @ ''.png'') = length ''.''" by (rule arg_cong)
    with long show False by simp
  qed
  show "flatten_slashes r @ ''.png'' \<noteq> ''..''"
  proof
    assume "flatten_slashes r @ ''.png'' = ''..''"
    then have "length (flatten_slashes r @ ''.png'') = length ''..''" by (rule arg_cong)
    with long show False by simp
  qed
qed

section \<open>Properties of \<open>syncRoute\<close>\<close>

lemma completeness_ratio_one: "completeness_ratio h = 1"
  by (simp add: completeness_ratio_def)

lemma syncRoute_sync_ok: "sync_ok env r \<Longrightarrow> fst (syncRoute env r s) = Inr 1"
  by (auto simp add: sync_ok_def syncRoute_def fetchText_def completeness_ratio_one
      DOM_THRESHOLD_def Let_def split: option.splits)

lemma syncRoute_not_sync_ok: "\<not> sync_ok env r \<Longrightarrow> \<exists>e. syncRoute env r s = (Inl e, s)"
  by (auto simp add: sync_ok_def syncRoute_def fetchText_def split: option.splits)

text \<open>
  C2 (as the code has it): when the live page is fetched, its primary content region is
  located and the two shared fragments are read, \<open>syncRoute\<close> succeeds with the ratio 1,
  which is at or above the threshold, whether the extracted content is empty or not; the
  Snapshot is written.
\<close>

theorem syncRoute_succeeds_when_located:
  assumes "http_get env (route_url r) = Some html" and "select_main env html = Some h"
    and "read_file env ''head-section.html'' = Some headInc"
    and "read_file env ''top-panel.html'' = Some topInc"
  shows "fst (syncRoute env r s) = Inr 1 \<and> DOM_THRESHOLD \<le> 1
    \<and> files (snd (syncRoute env r s))
        = files s @ [(path_join (path_join DIST_DIR r) ''index.html'',
            snapshot_doc headInc topInc h
              (case select_footer env html of None \<Rightarrow> [] | Some f \<Rightarrow> f))]"
  using assms
  by (simp add: syncRoute_def fetchText_def completeness_ratio_one DOM_THRESHOLD_def Let_def)

theorem syncRoute_succeeds_when_located_witness:
  "fst (syncRoute empty_main_env ''about-us'' state0) = Inr 1 \<and> DOM_THRESHOLD \<le> 1
    \<and> files (snd (syncRoute empty_main_env ''about-us'' state0))
        = [(''dist/about-us/index.html'',
            ''<!DOCTYPE html><html lang=\"en\"><head><meta></head><body><meta></body></html>'')]"
  using syncRoute_succeeds_when_located
    [of empty_main_env "''about-us''" "''<main></main>''" "[]" "''<meta>''" "''<meta>''" state0]
  by (simp add: empty_main_env_def path_defs DIST_DIR_def snapshot_doc_def state0_def)

text \<open>
  C2 as stated fails: with the primary content region located and its content empty,
  \<open>syncRoute\<close> returns the ratio 1 and no threshold error.
\<close>

theorem syncRoute_empty_content_counterexample:
  "select_main empty_main_env ''<main></main>'' = Some []
   \<and> fst (syncRoute empty_main_env ''about-us'' state0) = Inr 1
   \<and> fst (syncRoute empty_main_env ''about-us'' state0) \<noteq> Inl (DomRatioBelow ''about-us'')"
  by (simp add: syncRoute_def fetchText_def completeness_ratio_def DOM_THRESHOLD_def
      empty_main_env_def Let_def)

text \<open>
  C10: the completeness ratio is exactly 1 for every extracted content, the empty one
  included, so \<open>syncRoute\<close> never throws the threshold error, and a ratio it returns is 1.
\<close>

theorem syncRoute_ratio_always_one:
  "completeness_ratio h = 1
   \<and> fst (syncRoute env r s) \<noteq> Inl (DomRatioBelow r')
   \<and> (case fst (syncRoute env r s) of Inl e \<Rightarrow> True | Inr ratio \<Rightarrow> ratio = 1)"
  by (simp add: syncRoute_def fetchText_def completeness_ratio_one DOM_THRESHOLD_def Let_def
      split: sum.splits option.splits)

section \<open>Properties of \<open>discoverRoutes\<close>\<close>

lemma set_add_distinct: "distinct xs \<Longrightarrow> distinct (set_add xs x)"
  by (simp add: set_add_def)

lemma set_set_add: "set (set_add xs x) = insert x (set xs)"
  by (auto simp add: set_add_def)

lemma foldl_set_add_distinct: "distinct acc \<Longrightarrow> distinct (foldl set_add acc xs)"
  by (induction xs arbitrary: acc) (simp_all add: set_add_distinct)

lemma set_foldl_set_add: "set (foldl set_add acc xs) = set acc \<union> set xs"
  by (induction xs arbitrary: acc) (auto simp add: set_set_add)

lemma add_href_distinct: "distinct acc \<Longrightarrow> distinct (add_href acc h)"
  by (simp add: add_href_def set_add_distinct)

lemma set_add_href:
  "set (add_href acc h) = set acc \<union> normalize_href ` {x \<in> {h}. prefix ''/'' x}"
  by (auto simp add: add_href_def set_set_add)

lemma foldl_add_href_distinct: "distinct acc \<Longrightarrow> distinct (foldl add_href acc hs)"
  by (induction hs arbitrary: acc) (simp_all add: add_href_distinct)

lemma set_foldl_add_href:
  "set (foldl add_href acc hs) = set acc \<union> normalize_href ` {h \<in> set hs. prefix ''/'' h}"
proof (induction hs arbitrary: acc)
  case Nil
  show ?case by simp
next
  case (Cons h hs)
  have "set (foldl add_href (add_href acc h) hs)
      = set (add_href acc h) \<union> normalize_href ` {x \<in> set hs. prefix ''/'' x}"
    by (rule Cons.IH)
  then show ?case
    by (auto simp add: set_add_href)
qed

lemma remove_first_absent: "\<not> sublist pat t \<Longrightarrow> remove_first pat t = t"
proof (induction t)
  case Nil
  show ?case by simp
next
  case (Cons c cs)
  have "\<not> prefix pat (c # cs)"
  proof
    assume "prefix pat (c # cs)"
    then have "sublist pat (c # cs)" by (rule prefix_imp_sublist)
    with Cons.prems show False by simp
  qed
  moreover have "\<not> sublist pat cs"
  proof
    assume "sublist pat cs"
    then have "sublist pat (c # cs)" by (simp add: sublist_Cons_right)
    with Cons.prems show False by simp
  qed
  ultimately show ?case
    using Cons.IH by simp
qed

lemma remove_first_at:
  assumes "pat \<noteq> []" and "\<not> sublist pat (a @ butlast pat)"
  shows "remove_first pat (a @ pat @ b) = a @ b"
  using assms(2)
proof (induction a)
  case Nil
  from assms(1) obtain c cs where pat: "pat = c # cs"
    by (cases pat) auto
  show ?case by (simp add: pat)
next
  case (Cons x a)
  let ?ys = "x # a @ butlast pat"
  have split: "butlast pat @ [last pat] = pat"
    using assms(1) by simp
  have whole: "x # a @ pat @ b = ?ys @ (last pat # b)"
    using arg_cong [OF split, of "\<lambda>p. x # a @ p @ b"] by simp
  have "\<not> prefix pat (x # a @ pat @ b)"
  proof
    assume "prefix pat (x # a @ pat @ b)"
    then have "prefix pat (?ys @ (last pat # b))"
      by (simp only: whole)
    moreover have "prefix ?ys (?ys @ (last pat # b))"
      by (rule prefixI) (rule refl)
    moreover have "length pat \<le> length ?ys"
      by simp
    ultimately have "prefix pat ?ys"
      by (rule prefix_length_prefix)
    then have "sublist pat ?ys"
      by (rule prefix_imp_sublist)
    with Cons.prems show False by simp
  qed
  moreover have "\<not> sublist pat (a @ butlast pat)"
  proof
    assume "sublist pat (a @ butlast pat)"
    then have "sublist pat (x # a @ butlast pat)" by (simp add: sublist_Cons_right)
    with Cons.prems show False by simp
  qed
  ultimately show ?case
    using Cons.IH by simp
qed

lemma strip_leading_slash_cases:
  "strip_leading_slash (CHR ''/'' # t) = t" "\<not> prefix ''/'' t \<Longrightarrow> strip_leading_slash t = t"
  by (auto simp add: strip_leading_slash_def split: list.splits)

lemma strip_trailing_slash_cases:
  "strip_trailing_slash (t @ ''/'') = t" "\<not> suffix ''/'' t \<Longrightarrow> strip_trailing_slash t = t"
proof -
  show "strip_trailing_slash (t @ ''/'') = t"
    by (simp add: strip_trailing_slash_def)
  show "strip_trailing_slash t = t" if "\<not> suffix ''/'' t"
  proof (cases "t = []")
    case True
    then show ?thesis by (simp add: strip_trailing_slash_def)
  next
    case False
    have "last t \<noteq> CHR ''/''"
    proof
      assume "last t = CHR ''/''"
      with False have "t = butlast t @ ''/''"
        using append_butlast_last_id [of t] by simp
      then have "suffix ''/'' t"
        by (rule suffixI)
      with that show False by simp
    qed
    with False show ?thesis by (simp add: strip_trailing_slash_def)
  qed
qed

text \<open>
  C8 (as the code has it): Route Discovery fails only when neither the index nor the root
  document can be fetched.  Otherwise its result is duplicate-free.  When the index is
  fetched, the result consists of the entries found in it, each with the first occurrence
  of the origin (if there is one), then one leading slash (if there is one), then one
  trailing slash (if there is one) removed.  When the index cannot be fetched, the result
  is taken from the root document: it contains the root Route (the empty string) and,
  besides it, exactly the \<open>href\<close> values that begin with a slash, each with one leading
  slash, then one trailing slash (if there is one) removed.
\<close>

theorem discoverRoutes_duplicate_free_root_included:
  "(case discoverRoutes env of
      Inl e \<Rightarrow>
        fetch_body env (BASE_URL @ ''/sitemap.xml'') = None \<and> fetch_body env BASE_URL = None
        \<and> e = FetchFailed BASE_URL
    | Inr rs \<Rightarrow>
        distinct rs \<and>
        (case fetch_body env (BASE_URL @ ''/sitemap.xml'') of
           Some xml \<Rightarrow> set rs = normalize_loc ` set (sitemap_locs env xml)
         | None \<Rightarrow>
             [] \<in> set rs \<and>
             (\<exists>html. fetch_body env BASE_URL = Some html \<and>
                set rs = insert []
                  (normalize_href ` {h \<in> set (anchor_hrefs env html). prefix ''/'' h}))))
   \<and> normalize_loc loc = strip_trailing_slash (strip_leading_slash (remove_first BASE_URL loc))
   \<and> normalize_href h = strip_trailing_slash (strip_leading_slash h)
   \<and> (\<not> sublist BASE_URL (a @ butlast BASE_URL) \<longrightarrow> remove_first BASE_URL (a @ BASE_URL @ b) = a @ b)
   \<and> (\<not> sublist BASE_URL t \<longrightarrow> remove_first BASE_URL t = t)
   \<and> strip_leading_slash (CHR ''/'' # t) = t
   \<and> (\<not> prefix ''/'' t \<longrightarrow> strip_leading_slash t = t)
   \<and> strip_trailing_slash (t @ ''/'') = t
   \<and> (\<not> suffix ''/'' t \<longrightarrow> strip_trailing_slash t = t)
   \<and> BASE_URL = ''https://genaiglobal.org''"
proof -
  have result: "case discoverRoutes env of
      Inl e \<Rightarrow>
        fetch_body env (BASE_URL @ ''/sitemap.xml'') = None \<and> fetch_body env BASE_URL = None
        \<and> e = FetchFailed BASE_URL
    | Inr rs \<Rightarrow>
        distinct rs \<and>
        (case fetch_body env (BASE_URL @ ''/sitemap.xml'') of
           Some xml \<Rightarrow> set rs = normalize_loc ` set (sitemap_locs env xml)
         | None \<Rightarrow>
             [] \<in> set rs \<and>
             (\<exists>html. fetch_body env BASE_URL = Some html \<and>
                set rs = insert []
                  (normalize_href ` {h \<in> set (anchor_hrefs env html). prefix ''/'' h})))"
    by (simp add: discoverRoutes_def read_index_def fetchText_def array_from_set_def
        foldl_set_add_distinct set_foldl_set_add foldl_add_href_distinct set_foldl_add_href
        split: option.splits sum.splits)
  have origin: "BASE_URL \<noteq> []"
    by (simp add: BASE_URL_def)
  have "\<not> sublist BASE_URL (a @ butlast BASE_URL) \<longrightarrow>
      remove_first BASE_URL (a @ BASE_URL @ b) = a @ b"
    using remove_first_at [OF origin] by blast
  moreover have "\<not> sublist BASE_URL t \<longrightarrow> remove_first BASE_URL t = t"
    using remove_first_absent by blast
  moreover have "normalize_loc loc
      = strip_trailing_slash (strip_leading_slash (remove_first BASE_URL loc))"
    by (simp add: normalize_loc_def)
  moreover have "normalize_href h = strip_trailing_slash (strip_leading_slash h)"
    by (simp add: normalize_href_def)
  moreover have "BASE_URL = ''https://genaiglobal.org''"
    by (simp add: BASE_URL_def)
  moreover note result strip_leading_slash_cases [of t] strip_trailing_slash_cases [of t]
  ultimately show ?thesis
    by (intro conjI impI) blast+
qed

lemmas discover_defs = discoverRoutes_def read_index_def fetchText_def BASE_URL_def
  array_from_set_def add_href_def set_add_def normalize_loc_def normalize_href_def
  strip_leading_slash_def strip_trailing_slash_def

theorem discoverRoutes_duplicate_free_root_included_witness:
  "discoverRoutes listed_env = Inr [[], ''about-us'', ''events'']
   \<and> normalize_loc ` set (sitemap_locs listed_env ''<urlset>'') = {[], ''about-us'', ''events''}
   \<and> normalize_loc ''https://genaiglobal.org/about-us/'' = ''about-us''
   \<and> discoverRoutes crawl_env = Inr [[], ''about-us'', ''/cdn.example.org/lib'']
   \<and> fetch_body crawl_env (BASE_URL @ ''/sitemap.xml'') = None
   \<and> distinct [[], ''about-us'', ''/cdn.example.org/lib'']
   \<and> [] \<in> set [[], ''about-us'', ''/cdn.example.org/lib'']"
proof -
  have listed: "discoverRoutes listed_env = Inr [[], ''about-us'', ''events'']"
    by (simp add: discover_defs listed_env_def)
  have fetched: "fetch_body listed_env (BASE_URL @ ''/sitemap.xml'') = Some ''<urlset>''"
    by (simp add: listed_env_def)
  have entries: "normalize_loc ` set (sitemap_locs listed_env ''<urlset>'')
      = set [[], ''about-us'', ''events'']"
    using discoverRoutes_duplicate_free_root_included [of listed_env]
    by (simp only: listed fetched sum.case option.case)
  have "normalize_loc ''https://genaiglobal.org/about-us/''
      = strip_trailing_slash (strip_leading_slash
          (remove_first BASE_URL ''https://genaiglobal.org/about-us/''))"
    using discoverRoutes_duplicate_free_root_included
      [where env = crawl_env and loc = "''https://genaiglobal.org/about-us/''"]
    by blast
  also have "remove_first BASE_URL ''https://genaiglobal.org/about-us/'' = ''/about-us/''"
    by (simp add: BASE_URL_def)
  also have "strip_leading_slash ''/about-us/'' = ''about-us/''"
    using discoverRoutes_duplicate_free_root_included
      [where env = crawl_env and t = "''about-us/''"]
    by blast
  also have "strip_trailing_slash ''about-us/'' = ''about-us''"
    using discoverRoutes_duplicate_free_root_included
      [where env = crawl_env and t = "''about-us''"]
    by simp
  finally have one: "normalize_loc ''https://genaiglobal.org/about-us/'' = ''about-us''" .
  have run: "discoverRoutes crawl_env = Inr [[], ''about-us'', ''/cdn.example.org/lib'']"
    by (simp add: discover_defs crawl_env_def)
  have idx: "fetch_body crawl_env (BASE_URL @ ''/sitemap.xml'') = None"
    by (simp add: crawl_env_def BASE_URL_def)
  have "distinct [[], ''about-us'', ''/cdn.example.org/lib'']
      \<and> [] \<in> set [[], ''about-us'', ''/cdn.example.org/lib'']"
    using discoverRoutes_duplicate_free_root_included [of crawl_env]
    by (simp only: run idx sum.case option.case)
  with listed entries one run idx show ?thesis by simp
qed

text \<open>
  C8 as stated fails, in two ways.  A protocol-relative link of the root document begins
  with a slash, is taken for a link of the site, and yields a Route that keeps a leading
  slash.  And an index that is fetched but is not well-formed does not lead to the
  fallback: no entry is found in it and the result is empty, without the root Route,
  although the root document has a link.
\<close>

theorem discoverRoutes_not_normalized_counterexample:
  "discoverRoutes crawl_env = Inr [[], ''about-us'', ''/cdn.example.org/lib'']
   \<and> \<not> list_all spec_normalized_route [[], ''about-us'', ''/cdn.example.org/lib'']
   \<and> sitemap_locs malformed_index_env ''<urlset><url><loc'' = []
   \<and> anchor_hrefs malformed_index_env ''<html>'' = [''/about-us'']
   \<and> discoverRoutes malformed_index_env = Inr []"
  by (simp add: discover_defs crawl_env_def malformed_index_env_def spec_normalized_route_def)

section \<open>Padding in the visual regression test\<close>

lemma length_row_of_le: "length (row_of img y) \<le> 4 * width img"
  by (simp add: row_of_def)

lemma length_row_of_new_png:
  assumes "y < h"
  shows "length (row_of (new_png w h) y) = 4 * w"
proof -
  from assms have "Suc y \<le> h" by simp
  then have "w * Suc y \<le> w * h" by (rule mult_le_mono2)
  then have "4 * w \<le> 4 * w * h - 4 * w * y" by simp
  then show ?thesis by (simp add: row_of_def new_png_def)
qed

lemma length_concat_rows:
  "(\<And>y. y < h \<Longrightarrow> length (f y) = c) \<Longrightarrow> length (concat (map f [0..<h])) = h * c"
  by (induction h) simp_all

lemma new_png_dims: "width (new_png w h) = w" "height (new_png w h) = h"
  by (simp_all add: new_png_def)

lemma bitblt_onto_canvas:
  assumes "width src \<le> w" and "height src \<le> h"
  shows "\<exists>padded. bitblt src (new_png w h) = Inr padded \<and> width padded = w \<and> height padded = h
     \<and> length (data padded) = 4 * w * h"
proof -
  let ?row = "\<lambda>y. if y < height src
      then row_of src y @ drop (length (row_of src y)) (row_of (new_png w h) y)
      else row_of (new_png w h) y"
  have row: "length (?row y) = 4 * w" if "y < h" for y
  proof -
    have "length (row_of src y) \<le> 4 * w"
      using length_row_of_le [of src y] assms(1) by simp
    with length_row_of_new_png [OF that, of w] show ?thesis by simp
  qed
  have "length (concat (map ?row [0..<h])) = h * (4 * w)"
    by (rule length_concat_rows) (rule row)
  then have "length (concat (map ?row [0..<h])) = 4 * w * h"
    by (simp add: ac_simps)
  then show ?thesis
    using assms by (simp add: bitblt_def new_png_dims)
qed

lemma comparePage_pads:
  "\<exists>lp vp.
      bitblt localPNG (new_png (max (width localPNG) (width livePNG))
        (max (height localPNG) (height livePNG))) = Inr lp
    \<and> bitblt livePNG (new_png (max (width localPNG) (width livePNG))
        (max (height localPNG) (height livePNG))) = Inr vp
    \<and> length (data lp)
        = 4 * max (width localPNG) (width livePNG) * max (height localPNG) (height livePNG)
    \<and> length (data vp) = length (data lp)
    \<and> comparePage pm localPNG livePNG =
         (case pm (data lp) (data vp) (max (width localPNG) (width livePNG))
                  (max (height localPNG) (height livePNG)) of
            Inl e \<Rightarrow> Inl e
          | Inr d \<Rightarrow>
              Inr (d,
                rat_of_nat d / rat_of_nat (max (width localPNG) (width livePNG)
                  * max (height localPNG) (height livePNG)) * 100,
                rat_of_nat d / rat_of_nat (max (width localPNG) (width livePNG)
                  * max (height localPNG) (height livePNG)) * 100 \<le> 1 / 10))"
proof -
  define w where "w = max (width localPNG) (width livePNG)"
  define h where "h = max (height localPNG) (height livePNG)"
  have fits: "width localPNG \<le> w" "height localPNG \<le> h" "width livePNG \<le> w" "height livePNG \<le> h"
    by (simp_all add: w_def h_def)
  from bitblt_onto_canvas [OF fits(1,2)] obtain p where
    p: "bitblt localPNG (new_png w h) = Inr p" and lp: "length (data p) = 4 * w * h"
    by blast
  from bitblt_onto_canvas [OF fits(3,4)] obtain q where
    q: "bitblt livePNG (new_png w h) = Inr q" and lq: "length (data q) = 4 * w * h"
    by blast
  have run: "comparePage pm localPNG livePNG =
      (case pm (data p) (data q) w h of
         Inl e \<Rightarrow> Inl e
       | Inr d \<Rightarrow>
           Inr (d, rat_of_nat d / rat_of_nat (w * h) * 100,
             rat_of_nat d / rat_of_nat (w * h) * 100 \<le> 1 / 10))"
    unfolding comparePage_def Let_def threshold_def w_def [symmetric] h_def [symmetric]
    by (simp only: p q sum.case)
  have "bitblt localPNG (new_png w h) = Inr p \<and> bitblt livePNG (new_png w h) = Inr q
     \<and> length (data p) = 4 * w * h \<and> length (data q) = length (data p)
     \<and> comparePage pm localPNG livePNG =
      (case pm (data p) (data q) w h of
         Inl e \<Rightarrow> Inl e
       | Inr d \<Rightarrow>
           Inr (d, rat_of_nat d / rat_of_nat (w * h) * 100,
             rat_of_nat d / rat_of_nat (w * h) * 100 \<le> 1 / 10))"
    using p q lp lq run by simp
  then show ?thesis
    unfolding w_def h_def by (intro exI)
qed

section \<open>Concrete rounds of \<open>validate\<close>\<close>

lemmas round_defs = validate_def in_order_def static_checks_def run_def launch_def axe_route_def
  diff_route_def lighthouse_route_def domDiff_def visualDiff_def open_page_def close_page_def
  html_or_empty_def Let_def

lemmas const_defs = local_url_def live_url_def BASE_URL_def PORT_def DOM_THRESHOLD_def
  VISUAL_THRESHOLD_def diff_path_eq REPORT_DIR_def flatten_slashes_def
  state0_def pixel_image_def


lemma flatten_slashes_pointwise:
  "length (flatten_slashes r) = length r
   \<and> (\<forall>i<length r. flatten_slashes r ! i = (if r ! i = CHR ''/'' then CHR ''_'' else r ! i))"
  by (simp add: flatten_slashes_def)

lemma visualDiff_returns:
  assumes "pixelmatch env (data img1) (data img2) (width img1) (height img1) = Inr d"
  shows "visualDiff env r img1 img2 s =
    (if rat_of_nat d / rat_of_nat (width img1 * height img1) * 100 \<le> 1 / 10
     then Inr (rat_of_nat d / rat_of_nat (width img1 * height img1) * 100)
     else Inl (VisualDiff r (rat_of_nat d / rat_of_nat (width img1 * height img1) * 100)),
     s\<lparr>diffs_written := diffs_written s @ [''reports/diffs/'' @ flatten_slashes r @ ''.png'']\<rparr>)"
  using assms
  by (simp add: visualDiff_def Let_def VISUAL_THRESHOLD_def diff_path_eq REPORT_DIR_def)

lemma diff_route_loaded:
  assumes "goto_ok env (local_url r)" and "goto_ok env (live_url r)"
  shows "diff_route env r s =
    (if html_or_empty (main_html env (live_url r)) \<noteq> []
        \<and> 99 / 100 \<le> rat_of_nat (length (html_or_empty (main_html env (local_url r))))
              / rat_of_nat (length (html_or_empty (main_html env (live_url r))))
     then (case visualDiff env r (screenshot env (local_url r)) (screenshot env (live_url r))
                 (open_page (PageLive r) (open_page (PageLocal r) s)) of
             (Inl e, s3) \<Rightarrow> (Inl e, s3)
           | (Inr pct, s3) \<Rightarrow> (Inr (), close_page (PageLive r) (close_page (PageLocal r) s3)))
     else (Inl (DomDiff r), open_page (PageLive r) (open_page (PageLocal r) s)))"
  using assms
  by (simp add: diff_route_def domDiff_def DOM_THRESHOLD_def Let_def not_less)

section \<open>Properties of the structural and the visual check\<close>

text \<open>
  C6: the structural check passes exactly when the live markup is non-empty and
  \<open>len(local)/len(live)\<close> is at or above the threshold 0.99; so a non-empty markup passes
  against itself, every markup fails against the empty one, and a live page on which the
  selector finds nothing has the empty markup.  For a Route whose two pages load, the
  loop body goes on to the visual check exactly when the structural check passes, and
  otherwise throws the DOM diff error with both pages open; so when the visual check
  passes, the Route passes exactly when the ratio is at or above the threshold, and a
  live page without the primary content region fails the Route.
\<close>

theorem domDiff_length_ratio:
  "(domDiff r localHtml liveHtml = Inr ()) =
      (liveHtml \<noteq> [] \<and>
       DOM_THRESHOLD \<le> rat_of_nat (length localHtml) / rat_of_nat (length liveHtml))
   \<and> DOM_THRESHOLD = 99 / 100
   \<and> (domDiff r X X = Inr ()) = (X \<noteq> [])
   \<and> domDiff r X [] = Inl (DomDiff r)
   \<and> domDiff r X (html_or_empty None) = Inl (DomDiff r)
   \<and> html_or_empty None = [] \<and> html_or_empty (Some X) = X
   \<and> (goto_ok env (local_url r) \<and> goto_ok env (live_url r)
        \<and> l = html_or_empty (main_html env (local_url r))
        \<and> v = html_or_empty (main_html env (live_url r)) \<longrightarrow>
        diff_route env r s =
          (if v \<noteq> [] \<and> 99 / 100 \<le> rat_of_nat (length l) / rat_of_nat (length v)
           then (case visualDiff env r (screenshot env (local_url r)) (screenshot env (live_url r))
                       (open_page (PageLive r) (open_page (PageLocal r) s)) of
                   (Inl e, s3) \<Rightarrow> (Inl e, s3)
                 | (Inr pct, s3) \<Rightarrow>
                     (Inr (), close_page (PageLive r) (close_page (PageLocal r) s3)))
           else (Inl (DomDiff r), open_page (PageLive r) (open_page (PageLocal r) s))))
   \<and> (goto_ok env (local_url r) \<and> goto_ok env (live_url r)
        \<and> l = html_or_empty (main_html env (local_url r))
        \<and> v = html_or_empty (main_html env (live_url r))
        \<and> pixelmatch env (data (screenshot env (local_url r))) (data (screenshot env (live_url r)))
             (width (screenshot env (local_url r))) (height (screenshot env (local_url r))) = Inr d
        \<and> rat_of_nat d / rat_of_nat (width (screenshot env (local_url r))
             * height (screenshot env (local_url r))) * 100 \<le> 1 / 10 \<longrightarrow>
        (fst (diff_route env r s) = Inr ())
          = (v \<noteq> [] \<and> 99 / 100 \<le> rat_of_nat (length l) / rat_of_nat (length v)))
   \<and> (goto_ok env (local_url r) \<and> goto_ok env (live_url r) \<and> main_html env (live_url r) = None
        \<longrightarrow> fst (diff_route env r s) = Inl (DomDiff r))
   \<and> local_url r = ''http://localhost:3000/'' @ r \<and> live_url r = ''https://genaiglobal.org/'' @ r"
proof -
  have check: "(domDiff r localHtml liveHtml = Inr ()) =
      (liveHtml \<noteq> [] \<and>
       DOM_THRESHOLD \<le> rat_of_nat (length localHtml) / rat_of_nat (length liveHtml))
   \<and> DOM_THRESHOLD = 99 / 100
   \<and> (domDiff r X X = Inr ()) = (X \<noteq> [])
   \<and> domDiff r X [] = Inl (DomDiff r)
   \<and> domDiff r X (html_or_empty None) = Inl (DomDiff r)
   \<and> html_or_empty None = [] \<and> html_or_empty (Some X) = X"
    by (auto simp add: domDiff_def DOM_THRESHOLD_def html_or_empty_def)
  have body: "goto_ok env (local_url r) \<and> goto_ok env (live_url r)
        \<and> l = html_or_empty (main_html env (local_url r))
        \<and> v = html_or_empty (main_html env (live_url r)) \<longrightarrow>
        diff_route env r s =
          (if v \<noteq> [] \<and> 99 / 100 \<le> rat_of_nat (length l) / rat_of_nat (length v)
           then (case visualDiff env r (screenshot env (local_url r)) (screenshot env (live_url r))
                       (open_page (PageLive r) (open_page (PageLocal r) s)) of
                   (Inl e, s3) \<Rightarrow> (Inl e, s3)
                 | (Inr pct, s3) \<Rightarrow>
                     (Inr (), close_page (PageLive r) (close_page (PageLocal r) s3)))
           else (Inl (DomDiff r), open_page (PageLive r) (open_page (PageLocal r) s)))"
  proof (intro impI, elim conjE)
    assume "goto_ok env (local_url r)" and "goto_ok env (live_url r)"
      and "l = html_or_empty (main_html env (local_url r))"
      and "v = html_or_empty (main_html env (live_url r))"
    then show "diff_route env r s =
          (if v \<noteq> [] \<and> 99 / 100 \<le> rat_of_nat (length l) / rat_of_nat (length v)
           then (case visualDiff env r (screenshot env (local_url r)) (screenshot env (live_url r))
                       (open_page (PageLive r) (open_page (PageLocal r) s)) of
                   (Inl e, s3) \<Rightarrow> (Inl e, s3)
                 | (Inr pct, s3) \<Rightarrow>
                     (Inr (), close_page (PageLive r) (close_page (PageLocal r) s3)))
           else (Inl (DomDiff r), open_page (PageLive r) (open_page (PageLocal r) s)))"
      by (simp only: diff_route_loaded)
  qed
  have verdict: "goto_ok env (local_url r) \<and> goto_ok env (live_url r)
        \<and> l = html_or_empty (main_html env (local_url r))
        \<and> v = html_or_empty (main_html env (live_url r))
        \<and> pixelmatch env (data (screenshot env (local_url r))) (data (screenshot env (live_url r)))
             (width (screenshot env (local_url r))) (height (screenshot env (local_url r))) = Inr d
        \<and> rat_of_nat d / rat_of_nat (width (screenshot env (local_url r))
             * height (screenshot env (local_url r))) * 100 \<le> 1 / 10 \<longrightarrow>
        (fst (diff_route env r s) = Inr ())
          = (v \<noteq> [] \<and> 99 / 100 \<le> rat_of_nat (length l) / rat_of_nat (length v))"
  proof (intro impI, elim conjE)
    assume nav: "goto_ok env (local_url r)" "goto_ok env (live_url r)"
      and l: "l = html_or_empty (main_html env (local_url r))"
      and v: "v = html_or_empty (main_html env (live_url r))"
      and pm: "pixelmatch env (data (screenshot env (local_url r)))
          (data (screenshot env (live_url r)))
          (width (screenshot env (local_url r))) (height (screenshot env (local_url r))) = Inr d"
      and low: "rat_of_nat d / rat_of_nat (width (screenshot env (local_url r))
             * height (screenshot env (local_url r))) * 100 \<le> 1 / 10"
    show "(fst (diff_route env r s) = Inr ())
          = (v \<noteq> [] \<and> 99 / 100 \<le> rat_of_nat (length l) / rat_of_nat (length v))"
      unfolding diff_route_loaded [OF nav] visualDiff_returns [OF pm] l v
      using low by simp
  qed
  have missing: "goto_ok env (local_url r) \<and> goto_ok env (live_url r)
        \<and> main_html env (live_url r) = None
        \<longrightarrow> fst (diff_route env r s) = Inl (DomDiff r)"
    by (simp add: diff_route_loaded html_or_empty_def)
  have urls: "local_url r = ''http://localhost:3000/'' @ r
      \<and> live_url r = ''https://genaiglobal.org/'' @ r"
    by (simp add: local_url_def live_url_def PORT_def BASE_URL_def)
  from check body verdict missing urls show ?thesis
    by (intro conjI) blast+
qed

theorem domDiff_length_ratio_witness:
  "fst (diff_route passing_env ''a'' state0) = Inr ()
   \<and> fst (diff_route local_truncated ''a'' state0) = Inl (DomDiff ''a'')
   \<and> rat_of_nat (length ''<h1>H</h1>'') / rat_of_nat (length ''<h1>Hi</h1>'') = 10 / 11
   \<and> main_html live_a_without_main (live_url ''a'') = None
   \<and> fst (diff_route live_a_without_main ''a'' state0) = Inl (DomDiff ''a'')"
proof -
  have same: "goto_ok passing_env (local_url ''a'') \<and> goto_ok passing_env (live_url ''a'')
      \<and> ''<h1>Hi</h1>'' = html_or_empty (main_html passing_env (local_url ''a''))
      \<and> ''<h1>Hi</h1>'' = html_or_empty (main_html passing_env (live_url ''a''))
      \<and> pixelmatch passing_env (data (screenshot passing_env (local_url ''a'')))
           (data (screenshot passing_env (live_url ''a'')))
           (width (screenshot passing_env (local_url ''a'')))
           (height (screenshot passing_env (local_url ''a''))) = Inr 0
      \<and> rat_of_nat 0 / rat_of_nat (width (screenshot passing_env (local_url ''a''))
           * height (screenshot passing_env (local_url ''a''))) * 100 \<le> 1 / 10"
    by (simp add: passing_env_def html_or_empty_def)
  from domDiff_length_ratio
    [where env = passing_env and r = "''a''" and s = state0 and l = "''<h1>Hi</h1>''"
      and v = "''<h1>Hi</h1>''" and d = 0] same
  have "(fst (diff_route passing_env ''a'' state0) = Inr ())
      = (''<h1>Hi</h1>'' \<noteq> [] \<and> 99 / 100 \<le> rat_of_nat (length ''<h1>Hi</h1>'')
            / rat_of_nat (length ''<h1>Hi</h1>''))"
    by blast
  then have pass: "fst (diff_route passing_env ''a'' state0) = Inr ()"
    by simp
  have short: "goto_ok local_truncated (local_url ''a'') \<and> goto_ok local_truncated (live_url ''a'')
      \<and> ''<h1>H</h1>'' = html_or_empty (main_html local_truncated (local_url ''a''))
      \<and> ''<h1>Hi</h1>'' = html_or_empty (main_html local_truncated (live_url ''a''))"
    by (simp add: local_truncated_def passing_env_def html_or_empty_def local_url_def
        live_url_def PORT_def BASE_URL_def)
  from domDiff_length_ratio
    [where env = local_truncated and r = "''a''" and s = state0 and l = "''<h1>H</h1>''"
      and v = "''<h1>Hi</h1>''"] short
  have "diff_route local_truncated ''a'' state0 =
      (if ''<h1>Hi</h1>'' \<noteq> [] \<and> 99 / 100 \<le> rat_of_nat (length ''<h1>H</h1>'')
            / rat_of_nat (length ''<h1>Hi</h1>'')
       then (case visualDiff local_truncated ''a'' (screenshot local_truncated (local_url ''a''))
                   (screenshot local_truncated (live_url ''a''))
                   (open_page (PageLive ''a'') (open_page (PageLocal ''a'') state0)) of
               (Inl e, s3) \<Rightarrow> (Inl e, s3)
             | (Inr pct, s3) \<Rightarrow>
                 (Inr (), close_page (PageLive ''a'') (close_page (PageLocal ''a'') s3)))
       else (Inl (DomDiff ''a''), open_page (PageLive ''a'') (open_page (PageLocal ''a'') state0)))"
    by blast
  then have fail: "fst (diff_route local_truncated ''a'' state0) = Inl (DomDiff ''a'')"
    by simp
  have ratio: "rat_of_nat (length ''<h1>H</h1>'') / rat_of_nat (length ''<h1>Hi</h1>'') = 10 / 11"
    by simp
  have gone: "goto_ok live_a_without_main (local_url ''a'')
      \<and> goto_ok live_a_without_main (live_url ''a'')
      \<and> main_html live_a_without_main (live_url ''a'') = None"
    by (simp add: live_a_without_main_def passing_env_def live_url_def BASE_URL_def)
  from domDiff_length_ratio [where env = live_a_without_main and r = "''a''" and s = state0] gone
  have "fst (diff_route live_a_without_main ''a'' state0) = Inl (DomDiff ''a'')"
    by blast
  with pass fail ratio gone show ?thesis by simp
qed

text \<open>
  C7 (as the code has it): for a Route whose two pages load, whose structural check
  passes and for which \<open>pixelmatch\<close> returns the number of differing pixels, the visual
  check computes \<open>diffPercent = diffPixels / (width * height) * 100\<close> from the width
  and the height of the local screenshot, the Route passes exactly when \<open>diffPercent\<close>
  is at or below the threshold 0.1 and fails with the visual diff error otherwise, and in
  both cases the diff image has been written to the file of the diffs directory named by
  the Route with every slash replaced by an underscore and every other character kept,
  followed by \<open>.png\<close>, a name without a path separator.  For a Route whose two pages
  load and whose structural check fails, no percentage is computed and no image is
  written.  The page comparison of the visual regression test hands the two padded
  buffers to \<open>pixelmatch\<close> and computes the same percentage, over the padded canvas,
  and the same verdict.
\<close>

theorem visual_diff_percent_threshold_image:
  "(goto_ok env (local_url r) \<and> goto_ok env (live_url r)
      \<and> l = html_or_empty (main_html env (local_url r))
      \<and> v = html_or_empty (main_html env (live_url r))
      \<and> v \<noteq> [] \<and> 99 / 100 \<le> rat_of_nat (length l) / rat_of_nat (length v)
      \<and> localShot = screenshot env (local_url r) \<and> liveShot = screenshot env (live_url r)
      \<and> pixelmatch env (data localShot) (data liveShot) (width localShot) (height localShot)
           = Inr diffPixels
      \<and> diffPercent = rat_of_nat diffPixels / rat_of_nat (width localShot * height localShot) * 100
      \<longrightarrow>
      fst (diff_route env r s)
        = (if diffPercent \<le> 1 / 10 then Inr () else Inl (VisualDiff r diffPercent))
      \<and> (fst (diff_route env r s) = Inr ()) = (diffPercent \<le> 1 / 10)
      \<and> diffs_written (snd (diff_route env r s))
          = diffs_written s @ [''reports/diffs/'' @ flatten_slashes r @ ''.png''])
   \<and> (pixelmatch env (data img1) (data img2) (width img1) (height img1) = Inr d
      \<and> p = rat_of_nat d / rat_of_nat (width img1 * height img1) * 100 \<longrightarrow>
      visualDiff env r img1 img2 s =
        (if p \<le> 1 / 10 then Inr p else Inl (VisualDiff r p),
         s\<lparr>diffs_written := diffs_written s @ [''reports/diffs/'' @ flatten_slashes r @ ''.png'']\<rparr>))
   \<and> VISUAL_THRESHOLD = 1 / 10
   \<and> length (flatten_slashes r) = length r
   \<and> (\<forall>i<length r. flatten_slashes r ! i = (if r ! i = CHR ''/'' then CHR ''_'' else r ! i))
   \<and> CHR ''/'' \<notin> set (flatten_slashes r @ ''.png'')
   \<and> (goto_ok env (local_url r) \<and> goto_ok env (live_url r)
      \<and> l = html_or_empty (main_html env (local_url r))
      \<and> v = html_or_empty (main_html env (live_url r))
      \<and> (v = [] \<or> rat_of_nat (length l) / rat_of_nat (length v) < 99 / 100) \<longrightarrow>
      fst (diff_route env r s) = Inl (DomDiff r)
      \<and> diffs_written (snd (diff_route env r s)) = diffs_written s)
   \<and> (\<exists>lp vp.
        bitblt localPNG (new_png (max (width localPNG) (width livePNG))
          (max (height localPNG) (height livePNG))) = Inr lp
      \<and> bitblt livePNG (new_png (max (width localPNG) (width livePNG))
          (max (height localPNG) (height livePNG))) = Inr vp
      \<and> length (data lp)
          = 4 * max (width localPNG) (width livePNG) * max (height localPNG) (height livePNG)
      \<and> length (data vp) = length (data lp)
      \<and> comparePage pm localPNG livePNG =
           (case pm (data lp) (data vp) (max (width localPNG) (width livePNG))
                    (max (height localPNG) (height livePNG)) of
              Inl e \<Rightarrow> Inl e
            | Inr n \<Rightarrow>
                Inr (n,
                  rat_of_nat n / rat_of_nat (max (width localPNG) (width livePNG)
                    * max (height localPNG) (height livePNG)) * 100,
                  rat_of_nat n / rat_of_nat (max (width localPNG) (width livePNG)
                    * max (height localPNG) (height livePNG)) * 100 \<le> 1 / 10)))
   \<and> local_url r = ''http://localhost:3000/'' @ r \<and> live_url r = ''https://genaiglobal.org/'' @ r"
proof (intro conjI)
  show "goto_ok env (local_url r) \<and> goto_ok env (live_url r)
      \<and> l = html_or_empty (main_html env (local_url r))
      \<and> v = html_or_empty (main_html env (live_url r))
      \<and> v \<noteq> [] \<and> 99 / 100 \<le> rat_of_nat (length l) / rat_of_nat (length v)
      \<and> localShot = screenshot env (local_url r) \<and> liveShot = screenshot env (live_url r)
      \<and> pixelmatch env (data localShot) (data liveShot) (width localShot) (height localShot)
           = Inr diffPixels
      \<and> diffPercent = rat_of_nat diffPixels / rat_of_nat (width localShot * height localShot) * 100
      \<longrightarrow>
      fst (diff_route env r s)
        = (if diffPercent \<le> 1 / 10 then Inr () else Inl (VisualDiff r diffPercent))
      \<and> (fst (diff_route env r s) = Inr ()) = (diffPercent \<le> 1 / 10)
      \<and> diffs_written (snd (diff_route env r s))
          = diffs_written s @ [''reports/diffs/'' @ flatten_slashes r @ ''.png'']"
  proof (intro impI, elim conjE)
    assume nav: "goto_ok env (local_url r)" "goto_ok env (live_url r)"
      and l: "l = html_or_empty (main_html env (local_url r))"
      and v: "v = html_or_empty (main_html env (live_url r))"
      and ok: "v \<noteq> []" "99 / 100 \<le> rat_of_nat (length l) / rat_of_nat (length v)"
      and shots: "localShot = screenshot env (local_url r)" "liveShot = screenshot env (live_url r)"
      and pm: "pixelmatch env (data localShot) (data liveShot) (width localShot) (height localShot)
           = Inr diffPixels"
      and pct: "diffPercent
           = rat_of_nat diffPixels / rat_of_nat (width localShot * height localShot) * 100"
    have pm': "pixelmatch env (data (screenshot env (local_url r)))
        (data (screenshot env (live_url r))) (width (screenshot env (local_url r)))
        (height (screenshot env (local_url r))) = Inr diffPixels"
      using pm by (simp only: shots)
    have dom: "html_or_empty (main_html env (live_url r)) \<noteq> []
        \<and> 99 / 100 \<le> rat_of_nat (length (html_or_empty (main_html env (local_url r))))
              / rat_of_nat (length (html_or_empty (main_html env (live_url r))))"
      using ok by (simp only: l v simp_thms)
    show "fst (diff_route env r s)
        = (if diffPercent \<le> 1 / 10 then Inr () else Inl (VisualDiff r diffPercent))
      \<and> (fst (diff_route env r s) = Inr ()) = (diffPercent \<le> 1 / 10)
      \<and> diffs_written (snd (diff_route env r s))
          = diffs_written s @ [''reports/diffs/'' @ flatten_slashes r @ ''.png'']"
      unfolding diff_route_loaded [OF nav] visualDiff_returns [OF pm'] pct shots
      using dom by (simp add: open_page_def close_page_def)
  qed
next
  show "pixelmatch env (data img1) (data img2) (width img1) (height img1) = Inr d
      \<and> p = rat_of_nat d / rat_of_nat (width img1 * height img1) * 100 \<longrightarrow>
      visualDiff env r img1 img2 s =
        (if p \<le> 1 / 10 then Inr p else Inl (VisualDiff r p),
         s\<lparr>diffs_written := diffs_written s @ [''reports/diffs/'' @ flatten_slashes r @ ''.png'']\<rparr>)"
    using visualDiff_returns by blast
next
  show "VISUAL_THRESHOLD = 1 / 10"
    by (simp add: VISUAL_THRESHOLD_def)
next
  show "length (flatten_slashes r) = length r"
    using flatten_slashes_pointwise by blast
next
  show "\<forall>i<length r. flatten_slashes r ! i = (if r ! i = CHR ''/'' then CHR ''_'' else r ! i)"
    using flatten_slashes_pointwise by blast
next
  show "CHR ''/'' \<notin> set (flatten_slashes r @ ''.png'')"
    using flatten_slashes_flat [of r] by simp
next
  show "goto_ok env (local_url r) \<and> goto_ok env (live_url r)
      \<and> l = html_or_empty (main_html env (local_url r))
      \<and> v = html_or_empty (main_html env (live_url r))
      \<and> (v = [] \<or> rat_of_nat (length l) / rat_of_nat (length v) < 99 / 100) \<longrightarrow>
      fst (diff_route env r s) = Inl (DomDiff r)
      \<and> diffs_written (snd (diff_route env r s)) = diffs_written s"
  proof (intro impI, elim conjE)
    assume nav: "goto_ok env (local_url r)" "goto_ok env (live_url r)"
      and l: "l = html_or_empty (main_html env (local_url r))"
      and v: "v = html_or_empty (main_html env (live_url r))"
      and bad: "v = [] \<or> rat_of_nat (length l) / rat_of_nat (length v) < 99 / 100"
    have neg: "\<not> (html_or_empty (main_html env (live_url r)) \<noteq> []
        \<and> 99 / 100 \<le> rat_of_nat (length (html_or_empty (main_html env (local_url r))))
              / rat_of_nat (length (html_or_empty (main_html env (live_url r)))))"
      using bad unfolding l v by auto
    show "fst (diff_route env r s) = Inl (DomDiff r)
        \<and> diffs_written (snd (diff_route env r s)) = diffs_written s"
      unfolding diff_route_loaded [OF nav]
      by (simp only: neg if_False fst_conv snd_conv) (simp add: open_page_def)
  qed
next
  show "\<exists>lp vp.
        bitblt localPNG (new_png (max (width localPNG) (width livePNG))
          (max (height localPNG) (height livePNG))) = Inr lp
      \<and> bitblt livePNG (new_png (max (width localPNG) (width livePNG))
          (max (height localPNG) (height livePNG))) = Inr vp
      \<and> length (data lp)
          = 4 * max (width localPNG) (width livePNG) * max (height localPNG) (height livePNG)
      \<and> length (data vp) = length (data lp)
      \<and> comparePage pm localPNG livePNG =
           (case pm (data lp) (data vp) (max (width localPNG) (width livePNG))
                    (max (height localPNG) (height livePNG)) of
              Inl e \<Rightarrow> Inl e
            | Inr n \<Rightarrow>
                Inr (n,
                  rat_of_nat n / rat_of_nat (max (width localPNG) (width livePNG)
                    * max (height localPNG) (height livePNG)) * 100,
                  rat_of_nat n / rat_of_nat (max (width localPNG) (width livePNG)
                    * max (height localPNG) (height livePNG)) * 100 \<le> 1 / 10))"
    by (rule comparePage_pads)
next
  show "local_url r = ''http://localhost:3000/'' @ r"
    by (simp add: local_url_def PORT_def)
next
  show "live_url r = ''https://genaiglobal.org/'' @ r"
    by (simp add: live_url_def BASE_URL_def)
qed

theorem visual_diff_percent_threshold_image_witness:
  "fst (diff_route white_live ''blog/post'' state0) = Inl (VisualDiff ''blog/post'' 100)
   \<and> diffs_written (snd (diff_route white_live ''blog/post'' state0))
       = [''reports/diffs/blog_post.png'']
   \<and> fst (diff_route white_live ''about-us'' state0) = Inr ()
   \<and> diffs_written (snd (diff_route white_live ''about-us'' state0))
       = [''reports/diffs/about-us.png'']"
proof -
  have differs: "goto_ok white_live (local_url ''blog/post'')
      \<and> goto_ok white_live (live_url ''blog/post'')
      \<and> ''<h1>Hi</h1>'' = html_or_empty (main_html white_live (local_url ''blog/post''))
      \<and> ''<h1>Hi</h1>'' = html_or_empty (main_html white_live (live_url ''blog/post''))
      \<and> ''<h1>Hi</h1>'' \<noteq> []
      \<and> 99 / 100 \<le> rat_of_nat (length ''<h1>Hi</h1>'') / rat_of_nat (length ''<h1>Hi</h1>'')
      \<and> pixel_image = screenshot white_live (local_url ''blog/post'')
      \<and> white_pixel = screenshot white_live (live_url ''blog/post'')
      \<and> pixelmatch white_live (data pixel_image) (data white_pixel) (width pixel_image)
           (height pixel_image) = Inr 1
      \<and> (100::rat) = rat_of_nat 1 / rat_of_nat (width pixel_image * height pixel_image) * 100"
    by (simp add: white_live_def passing_env_def html_or_empty_def local_url_def live_url_def
        PORT_def BASE_URL_def pixel_image_def white_pixel_def exact_pixelmatch_def)
  from visual_diff_percent_threshold_image
    [where env = white_live and r = "''blog/post''" and s = state0 and l = "''<h1>Hi</h1>''"
      and v = "''<h1>Hi</h1>''" and localShot = pixel_image and liveShot = white_pixel
      and diffPixels = 1 and diffPercent = 100] differs
  have "fst (diff_route white_live ''blog/post'' state0)
        = (if (100::rat) \<le> 1 / 10 then Inr () else Inl (VisualDiff ''blog/post'' 100))
      \<and> diffs_written (snd (diff_route white_live ''blog/post'' state0))
        = diffs_written state0 @ [''reports/diffs/'' @ flatten_slashes ''blog/post'' @ ''.png'']"
    by blast
  then have fail: "fst (diff_route white_live ''blog/post'' state0)
        = Inl (VisualDiff ''blog/post'' 100)
      \<and> diffs_written (snd (diff_route white_live ''blog/post'' state0))
        = [''reports/diffs/blog_post.png'']"
    by (simp add: state0_def flatten_slashes_def)
  have same: "goto_ok white_live (local_url ''about-us'')
      \<and> goto_ok white_live (live_url ''about-us'')
      \<and> ''<h1>Hi</h1>'' = html_or_empty (main_html white_live (local_url ''about-us''))
      \<and> ''<h1>Hi</h1>'' = html_or_empty (main_html white_live (live_url ''about-us''))
      \<and> ''<h1>Hi</h1>'' \<noteq> []
      \<and> 99 / 100 \<le> rat_of_nat (length ''<h1>Hi</h1>'') / rat_of_nat (length ''<h1>Hi</h1>'')
      \<and> pixel_image = screenshot white_live (local_url ''about-us'')
      \<and> pixel_image = screenshot white_live (live_url ''about-us'')
      \<and> pixelmatch white_live (data pixel_image) (data pixel_image) (width pixel_image)
           (height pixel_image) = Inr 0
      \<and> (0::rat) = rat_of_nat 0 / rat_of_nat (width pixel_image * height pixel_image) * 100"
    by (simp add: white_live_def passing_env_def html_or_empty_def local_url_def live_url_def
        PORT_def BASE_URL_def pixel_image_def exact_pixelmatch_def)
  from visual_diff_percent_threshold_image
    [where env = white_live and r = "''about-us''" and s = state0 and l = "''<h1>Hi</h1>''"
      and v = "''<h1>Hi</h1>''" and localShot = pixel_image and liveShot = pixel_image
      and diffPixels = 0 and diffPercent = 0] same
  have "fst (diff_route white_live ''about-us'' state0)
        = (if (0::rat) \<le> 1 / 10 then Inr () else Inl (VisualDiff ''about-us'' 0))
      \<and> diffs_written (snd (diff_route white_live ''about-us'' state0))
        = diffs_written state0 @ [''reports/diffs/'' @ flatten_slashes ''about-us'' @ ''.png'']"
    by blast
  then have pass: "fst (diff_route white_live ''about-us'' state0) = Inr ()
      \<and> diffs_written (snd (diff_route white_live ''about-us'' state0))
        = [''reports/diffs/about-us.png'']"
    by (simp add: state0_def flatten_slashes_def)
  from fail pass show ?thesis by simp
qed

text \<open>
  C7 as stated fails: not every Route gets a percentage and a diff image.  For Route
  \<open>a\<close> whose local markup has 10 of the 11 characters of the live markup, the loop body
  throws the DOM diff error before the visual check and the round ends without a diff
  image, although the two screenshots are equal.  And for Route \<open>a\<close> whose live page is
  one pixel taller than the local one, \<open>pixelmatch\<close> throws and no diff image is written.
\<close>

theorem visual_diff_not_for_every_route_counterexample:
  "screenshot local_truncated (local_url ''a'') = screenshot local_truncated (live_url ''a'')
   \<and> fst (diff_route local_truncated ''a'' state0) = Inl (DomDiff ''a'')
   \<and> diffs_written (snd (diff_route local_truncated ''a'' state0)) = []
   \<and> fst (validate local_truncated [''a''] state0) = Inl (DomDiff ''a'')
   \<and> diffs_written (snd (validate local_truncated [''a''] state0)) = []
   \<and> fst (diff_route taller_live ''a'' state0) = Inl (LibraryError ''Image sizes do not match.'')
   \<and> diffs_written (snd (diff_route taller_live ''a'' state0)) = []"
  by (simp add: round_defs const_defs local_truncated_def taller_live_def passing_env_def
      tall_image_def exact_pixelmatch_def)

section \<open>Rounds of \<open>validate\<close> that end early\<close>

text \<open>
  C1 as stated fails on \<open>validate\<close>: with the Routes \<open>a\<close> and \<open>b\<close>, where the live page
  of \<open>a\<close> has no primary content region and \<open>b\<close> alone would pass its checks, the round
  ends with the DOM diff error of \<open>a\<close>; nothing is recorded, and \<open>b\<close> is never compared
  (no diff image is written for it).
\<close>

theorem validate_aborts_round_counterexample:
  "fst (validate live_a_without_main [''a'', ''b''] state0) = Inl (DomDiff ''a'')
   \<and> diffs_written (snd (validate live_a_without_main [''a'', ''b''] state0)) = []
   \<and> diff_route live_a_without_main ''b'' state0
       = (Inr (), state0\<lparr>diffs_written := [''reports/diffs/b.png'']\<rparr>)"
  by (simp add: round_defs const_defs live_a_without_main_def passing_env_def)

text \<open>
  C9 fails on \<open>validate\<close>: when the visual check of Route \<open>a\<close> fails, the round ends
  with both page contexts of \<open>a\<close> still open and the browser engine still running.
\<close>

theorem validate_leaves_pages_open:
  "fst (validate all_pixels_differ [''a''] state0) = Inl (VisualDiff ''a'' 100)
   \<and> open_pages (snd (validate all_pixels_differ [''a''] state0))
       = [PageLocal ''a'', PageLive ''a'']
   \<and> browsers (snd (validate all_pixels_differ [''a''] state0)) = 1
   \<and> open_pages (snd (validate passing_env [''a''] state0)) = []"
  by (simp add: round_defs const_defs all_pixels_differ_def passing_env_def)

text \<open>
  C3 fails on \<open>validate\<close>: the two screenshots go to \<open>pixelmatch\<close> unpadded, with the
  width and the height of the local one.  With a live page one pixel taller than the
  local page, a \<open>pixelmatch\<close> that checks the buffer sizes throws, the round ends and no
  diff image is written; the page comparison of the visual regression test pads both
  screenshots and reports one differing pixel of two.
\<close>

theorem validate_compares_unpadded_screenshots:
  "fst (validate taller_live [''a''] state0) = Inl (LibraryError ''Image sizes do not match.'')
   \<and> diffs_written (snd (validate taller_live [''a''] state0)) = []
   \<and> comparePage exact_pixelmatch pixel_image tall_image = Inr (1, 50, False)"
proof -
  have round: "fst (validate taller_live [''a''] state0)
        = Inl (LibraryError ''Image sizes do not match.'')
      \<and> diffs_written (snd (validate taller_live [''a''] state0)) = []"
    by (simp add: round_defs const_defs taller_live_def passing_env_def tall_image_def
        exact_pixelmatch_def)
  have rep: "replicate 8 (0::byte) = [0, 0, 0, 0, 0, 0, 0, 0]"
    by (simp add: numeral_eq_Suc)
  have rows: "[0..<2] = [0, 1]"
    by (simp add: upt_conv_Cons)
  have padded: "bitblt pixel_image (new_png 1 2)
      = Inr \<lparr>width = 1, height = 2, data = [0, 0, 0, 255, 0, 0, 0, 0]\<rparr>"
    by (simp add: bitblt_def new_png_def row_of_def pixel_image_def rep rows)
  have same: "bitblt tall_image (new_png 1 2) = Inr tall_image"
    by (simp add: bitblt_def new_png_def row_of_def tall_image_def rep rows)
  have dims: "max (width pixel_image) (width tall_image) = 1"
    "max (height pixel_image) (height tall_image) = 2"
    by (simp_all add: pixel_image_def tall_image_def)
  have count: "exact_pixelmatch [0, 0, 0, 255, 0, 0, 0, 0] (data tall_image) 1 2 = Inr 1"
    by (simp add: exact_pixelmatch_def tall_image_def)
  have "comparePage exact_pixelmatch pixel_image tall_image = Inr (1, 50, False)"
    unfolding comparePage_def Let_def dims
    by (simp only: padded same sum.case image.select_convs count) (simp add: threshold_def)
  with round show ?thesis by simp
qed

section \<open>Properties of the bounded-retry script\<close>

lemma dom_page_cases:
  "dom_page env p res =
     res\<lparr>dom_res := dom_res res @ (if dom_page_passes env p then [] else
         [DomEntry p (if nav_ok env (local_url p)
                      then (if nav_ok env (live_url p) then None
                            else Some (NavigationFailed (live_url p)))
                      else Some (NavigationFailed (local_url p)))])\<rparr>"
  by (simp add: dom_page_def dom_page_passes_def Let_def)

lemma dom_loop:
  "\<exists>new. foldl (\<lambda>acc page. dom_page env page acc) res pages = res\<lparr>dom_res := dom_res res @ new\<rparr>
     \<and> map entry_page new = filter (\<lambda>p. \<not> dom_page_passes env p) pages"
proof (induction pages arbitrary: res)
  case Nil
  show ?case by simp
next
  case (Cons p ps)
  obtain new where
    new: "foldl (\<lambda>acc page. dom_page env page acc) (dom_page env p res) ps
            = (dom_page env p res)\<lparr>dom_res := dom_res (dom_page env p res) @ new\<rparr>"
      "map entry_page new = filter (\<lambda>p. \<not> dom_page_passes env p) ps"
    using Cons.IH [of "dom_page env p res"] by blast
  show ?case
  proof (cases "dom_page_passes env p")
    case True
    then have "dom_page env p res = res"
      by (simp add: dom_page_cases)
    with new True show ?thesis by auto
  next
    case False
    then obtain e where e: "dom_page env p res = res\<lparr>dom_res := dom_res res @ [DomEntry p e]\<rparr>"
      by (simp add: dom_page_cases)
    have "foldl (\<lambda>acc page. dom_page env page acc) res (p # ps)
        = res\<lparr>dom_res := dom_res res @ (DomEntry p e # new)\<rparr>"
      using new(1) by (simp add: e)
    moreover have "map entry_page (DomEntry p e # new)
        = filter (\<lambda>p. \<not> dom_page_passes env p) (p # ps)"
      using new(2) False by simp
    ultimately show ?thesis by blast
  qed
qed

text \<open>
  C1 (as the code has it, for the structural stage of the bounded-retry script): when the
  browser engine is there, \<open>runDomDiff\<close> returns the Report it was given with entries
  added to its structural list and nothing else changed; the pages of the added entries
  are, in order, exactly the pages that do not pass (a navigation fails or the two markups
  differ), so a failing page is recorded and the pages after it are still compared.
  When the engine is not there the stage throws, which ends the round.
\<close>

theorem runDomDiff_records_and_continues:
  "(browser_ok env \<longrightarrow>
      (\<exists>new. runDomDiff env pages res = Inr (res\<lparr>dom_res := dom_res res @ new\<rparr>)
         \<and> map entry_page new = filter (\<lambda>p. \<not> dom_page_passes env p) pages))
   \<and> (\<not> browser_ok env \<longrightarrow> runDomDiff env pages res = Inl LaunchFailed)"
  using dom_loop [of env res pages] by (simp add: runDomDiff_def)

theorem runDomDiff_records_and_continues_witness:
  "browser_ok two_pages_env
   \<and> runDomDiff two_pages_env [''index.html'', ''about.html'', ''gone.html''] no_results
       = Inr (no_results\<lparr>dom_res :=
           [DomEntry ''index.html'' None,
            DomEntry ''gone.html'' (Some (NavigationFailed ''https://genaiglobal.org/gone.html''))]\<rparr>)
   \<and> filter (\<lambda>p. \<not> dom_page_passes two_pages_env p) [''index.html'', ''about.html'', ''gone.html'']
       = [''index.html'', ''gone.html'']"
proof -
  have engine: "browser_ok two_pages_env"
    by (simp add: two_pages_env_def)
  have run: "runDomDiff two_pages_env [''index.html'', ''about.html'', ''gone.html''] no_results
       = Inr (no_results\<lparr>dom_res :=
           [DomEntry ''index.html'' None,
            DomEntry ''gone.html'' (Some (NavigationFailed ''https://genaiglobal.org/gone.html''))]\<rparr>)"
    by (simp add: runDomDiff_def dom_page_def two_pages_env_def no_results_def html_or_empty_def
        local_url_def live_url_def BASE_URL_def PORT_def Let_def)
  from runDomDiff_records_and_continues
    [of two_pages_env "[''index.html'', ''about.html'', ''gone.html'']" no_results] engine
  obtain new where
    new: "runDomDiff two_pages_env [''index.html'', ''about.html'', ''gone.html''] no_results
        = Inr (no_results\<lparr>dom_res := dom_res no_results @ new\<rparr>)"
      "map entry_page new
        = filter (\<lambda>p. \<not> dom_page_passes two_pages_env p)
            [''index.html'', ''about.html'', ''gone.html'']"
    by blast
  from new(1) run have "new = [DomEntry ''index.html'' None,
      DomEntry ''gone.html'' (Some (NavigationFailed ''https://genaiglobal.org/gone.html''))]"
    by (simp add: no_results_def)
  with new(2) have "filter (\<lambda>p. \<not> dom_page_passes two_pages_env p)
      [''index.html'', ''about.html'', ''gone.html''] = [''index.html'', ''gone.html'']"
    by simp
  with engine run show ?thesis by simp
qed

lemma attempt_loop_all_fail:
  assumes "\<forall>a. k \<le> a \<and> a \<le> m \<longrightarrow>
      fixPhase env a = None \<and> (\<exists>res. validationPhase env a = Inr res \<and> summarize res \<noteq> 0)"
  shows "attempt_loop env m k acc
     = (Exited 1, acc @ map (\<lambda>a. projr (validationPhase env a)) [k..<Suc m])"
  using assms
proof (induction env m k acc rule: attempt_loop.induct)
  case (1 env m k acc)
  show ?case
  proof (cases "k \<le> m")
    case False
    then show ?thesis by (subst attempt_loop.simps) simp
  next
    case True
    with "1.prems" obtain res where
      r: "fixPhase env k = None" "validationPhase env k = Inr res" "summarize res \<noteq> 0"
      by auto
    have "attempt_loop env m (Suc k) (acc @ [res])
        = (Exited 1, (acc @ [res]) @ map (\<lambda>a. projr (validationPhase env a)) [Suc k..<Suc m])"
      by (rule "1.IH" [OF True r(1) r(2)]) (use r "1.prems" in auto)
    moreover have "[k..<Suc m] = k # [Suc k..<Suc m]"
      using True by (simp add: upt_conv_Cons)
    ultimately show ?thesis
      using True r by (subst attempt_loop.simps) simp
  qed
qed


text \<open>
  C4: when in every attempt up to the maximum \<open>fixPhase\<close> returns and
  \<open>validationPhase\<close> returns a Report with at least one entry, the loop runs exactly the
  maximum number of rounds, writes the Report of each round, in order, and the process
  exits with code 1.  The maximum of the script is 3.
\<close>

theorem bounded_retry_exhausts_attempts:
  assumes "\<forall>a. 1 \<le> a \<and> a \<le> m \<longrightarrow>
      fixPhase env a = None \<and> (\<exists>res. validationPhase env a = Inr res \<and> summarize res \<noteq> 0)"
  shows "attempt_loop env m 1 [] = (Exited 1, map (\<lambda>a. projr (validationPhase env a)) [1..<Suc m])
    \<and> length (snd (attempt_loop env m 1 [])) = m
    \<and> MAX_ATTEMPTS = 3 \<and> bounded_main env = attempt_loop env MAX_ATTEMPTS 1 []"
  using attempt_loop_all_fail [OF assms, of "[]"]
  by (simp add: MAX_ATTEMPTS_def bounded_main_def)

theorem bounded_retry_exhausts_attempts_witness:
  "summarize one_failure = 1
   \<and> bounded_main always_failing = (Exited 1, [one_failure, one_failure, one_failure])"
proof -
  have failures: "summarize one_failure = 1"
    by (simp add: summarize_def one_failure_def no_results_def)
  have every: "\<forall>a. 1 \<le> a \<and> a \<le> 3 \<longrightarrow>
      fixPhase always_failing a = None
      \<and> (\<exists>res. validationPhase always_failing a = Inr res \<and> summarize res \<noteq> 0)"
    by (simp add: always_failing_def failures)
  have rounds: "map (\<lambda>a. projr (validationPhase always_failing a)) [1..<Suc 3]
      = [one_failure, one_failure, one_failure]"
    by (simp add: always_failing_def upt_conv_Cons)
  from bounded_retry_exhausts_attempts [OF every]
  have "bounded_main always_failing
      = (Exited 1, map (\<lambda>a. projr (validationPhase always_failing a)) [1..<Suc 3])"
    by (simp only: MAX_ATTEMPTS_def)
  with rounds failures show ?thesis by simp
qed

section \<open>Properties of the unbounded-retry loop\<close>

text \<open>The verdict of a round does not depend on the state it starts from.\<close>

lemma foreach_fst_cong:
  assumes "\<And>x s s'. x \<in> set xs \<Longrightarrow> fst (f x s) = fst (f x s')"
  shows "fst (foreach f xs s) = fst (foreach f xs s')"
  using assms
proof (induction xs arbitrary: s s')
  case Nil
  show ?case by simp
next
  case (Cons x xs)
  have "fst (f x s) = fst (f x s')"
    by (rule Cons.prems) simp
  then obtain a t t' where l: "f x s = (a, t)" and r: "f x s' = (a, t')"
    by (cases "f x s"; cases "f x s'") simp
  have rest: "fst (foreach f xs t) = fst (foreach f xs t')"
    by (rule Cons.IH) (simp add: Cons.prems)
  show ?case
    using l r rest by (cases a) simp_all
qed

lemma foreach_preserves:
  assumes "\<And>x s. x \<in> set xs \<Longrightarrow> g (snd (f x s)) = g s"
  shows "g (snd (foreach f xs s)) = g s"
  using assms
proof (induction xs arbitrary: s)
  case Nil
  show ?case by simp
next
  case (Cons x xs)
  obtain a t where l: "f x s = (a, t)" by (cases "f x s")
  have t: "g t = g s"
    using Cons.prems [of x s] l by simp
  have rest: "g (snd (foreach f xs t)) = g t"
    by (rule Cons.IH) (simp add: Cons.prems)
  show ?case
    using l t rest by (cases a) simp_all
qed

lemma run_fst: "fst (run env c s) = fst (run env c s')"
  by (simp add: run_def)

lemma static_checks_fst: "fst (static_checks env s) = fst (static_checks env s')"
proof (cases "walk_dist env")
  case None
  then show ?thesis by (simp add: static_checks_def)
next
  case (Some htmlFiles)
  have "fst (foreach (\<lambda>stage. stage)
          [foreach (\<lambda>f. run env (html_validator_cmd f)) htmlFiles,
           run env stylelint_cmd, run env eslint_cmd, run env cspell_cmd] s)
      = fst (foreach (\<lambda>stage. stage)
          [foreach (\<lambda>f. run env (html_validator_cmd f)) htmlFiles,
           run env stylelint_cmd, run env eslint_cmd, run env cspell_cmd] s')"
    by (rule foreach_fst_cong) (auto simp add: run_fst intro!: foreach_fst_cong)
  with Some show ?thesis by (simp add: static_checks_def in_order_def)
qed

lemma launch_fst: "fst (launch env s) = fst (launch env s')"
  by (simp add: launch_def)

lemma axe_route_fst: "fst (axe_route env r s) = fst (axe_route env r s')"
  by (simp add: axe_route_def Let_def)

lemma visualDiff_fst: "fst (visualDiff env r a b s) = fst (visualDiff env r a b s')"
  by (simp add: visualDiff_def Let_def split: sum.splits)

lemma diff_route_fst: "fst (diff_route env r s) = fst (diff_route env r s')"
proof -
  let ?s2 = "open_page (PageLive r) (open_page (PageLocal r) s)"
  let ?s2' = "open_page (PageLive r) (open_page (PageLocal r) s')"
  let ?a = "screenshot env (local_url r)" and ?b = "screenshot env (live_url r)"
  have "fst (visualDiff env r ?a ?b ?s2) = fst (visualDiff env r ?a ?b ?s2')"
    by (rule visualDiff_fst)
  then obtain v t t' where l: "visualDiff env r ?a ?b ?s2 = (v, t)"
    and r: "visualDiff env r ?a ?b ?s2' = (v, t')"
    by (cases "visualDiff env r ?a ?b ?s2"; cases "visualDiff env r ?a ?b ?s2'") simp
  show ?thesis
    using l r by (cases v) (simp_all add: diff_route_def Let_def split: sum.splits)
qed

lemma lighthouse_route_fst: "fst (lighthouse_route env r s) = fst (lighthouse_route env r s')"
  by (simp add: lighthouse_route_def)

lemma validate_fst: "fst (validate env routes s) = fst (validate env routes s')"
  unfolding validate_def in_order_def
  by (rule foreach_fst_cong)
    (auto simp add: static_checks_fst launch_fst run_fst
      intro!: foreach_fst_cong axe_route_fst diff_route_fst lighthouse_route_fst)

text \<open>A round writes no Snapshot; a synchronization pass writes one for each Route.\<close>

lemma run_files: "files (snd (run env c s)) = files s"
  by (simp add: run_def)

lemma static_checks_files: "files (snd (static_checks env s)) = files s"
proof (cases "walk_dist env")
  case None
  then show ?thesis by (simp add: static_checks_def)
next
  case (Some htmlFiles)
  have "files (snd (foreach (\<lambda>stage. stage)
          [foreach (\<lambda>f. run env (html_validator_cmd f)) htmlFiles,
           run env stylelint_cmd, run env eslint_cmd, run env cspell_cmd] s)) = files s"
    by (rule foreach_preserves) (auto simp add: run_files intro!: foreach_preserves)
  with Some show ?thesis by (simp add: static_checks_def in_order_def)
qed

lemma launch_files: "files (snd (launch env s)) = files s"
  by (simp add: launch_def)

lemma axe_route_files: "files (snd (axe_route env r s)) = files s"
  by (simp add: axe_route_def Let_def open_page_def close_page_def)

lemma visualDiff_files: "files (snd (visualDiff env r a b s)) = files s"
  by (simp add: visualDiff_def Let_def split: sum.splits)

lemma diff_route_files: "files (snd (diff_route env r s)) = files s"
proof -
  let ?s2 = "open_page (PageLive r) (open_page (PageLocal r) s)"
  let ?a = "screenshot env (local_url r)" and ?b = "screenshot env (live_url r)"
  obtain v t where l: "visualDiff env r ?a ?b ?s2 = (v, t)"
    by (cases "visualDiff env r ?a ?b ?s2")
  have "files t = files ?s2"
    using visualDiff_files [of env r ?a ?b ?s2] l by simp
  then show ?thesis
    using l
    by (cases v)
      (simp_all add: diff_route_def Let_def open_page_def close_page_def split: sum.splits)
qed

lemma lighthouse_route_files: "files (snd (lighthouse_route env r s)) = files s"
  by (simp add: lighthouse_route_def)

lemma validate_files: "files (snd (validate env routes s)) = files s"
  unfolding validate_def in_order_def
  by (rule foreach_preserves)
    (auto simp add: static_checks_files launch_files run_files
      intro!: foreach_preserves axe_route_files diff_route_files lighthouse_route_files)

lemma syncRoute_ok_effect:
  assumes "sync_ok env r"
  shows "\<exists>doc. syncRoute env r s
     = (Inr 1, s\<lparr>files := files s @ [(path_join (path_join DIST_DIR r) ''index.html'', doc)]\<rparr>)"
  using assms
  by (auto simp add: sync_ok_def syncRoute_def fetchText_def completeness_ratio_def
      DOM_THRESHOLD_def Let_def split: option.splits)

lemma sync_all_ok:
  assumes "list_all (sync_ok env) routes"
  shows "\<exists>s'. sync_all env routes s = (Inr (), s')
     \<and> map fst (files s') = map fst (files s) @ snapshot_paths routes"
  using assms
proof (induction routes arbitrary: s)
  case Nil
  show ?case by (simp add: sync_all_def snapshot_paths_def)
next
  case (Cons r rs)
  from Cons.prems have ok: "sync_ok env r" and rest: "list_all (sync_ok env) rs"
    by simp_all
  from syncRoute_ok_effect [OF ok, of s] obtain doc where
    step: "syncRoute env r s
      = (Inr 1, s\<lparr>files := files s @ [(path_join (path_join DIST_DIR r) ''index.html'', doc)]\<rparr>)"
    by blast
  let ?s1 = "s\<lparr>files := files s @ [(path_join (path_join DIST_DIR r) ''index.html'', doc)]\<rparr>"
  from Cons.IH [OF rest, of ?s1] obtain s' where
    tail: "sync_all env rs ?s1 = (Inr (), s')"
      "map fst (files s') = map fst (files ?s1) @ snapshot_paths rs"
    by blast
  have "sync_all env (r # rs) s = (Inr (), s')"
    using step tail(1) by (simp add: sync_all_def)
  moreover have "map fst (files s') = map fst (files s) @ snapshot_paths (r # rs)"
    using tail(2) by (simp add: snapshot_paths_def)
  ultimately show ?case by blast
qed

text \<open>One turn of the loop, and the loop up to the first round that passes.\<close>

lemma validate_verdict:
  "fst (validate (round_env env n) routes s) = Inr () \<longleftrightarrow> round_passes env routes n"
  using validate_fst [of "round_env env n" routes s state0] by (simp add: round_passes_def)

lemma retry_loop_pass:
  assumes "round_passes env routes n"
  shows "\<exists>s'. retry_loop env routes n s = Some (0, n, s') \<and> files s' = files s"
proof -
  obtain a s' where v: "validate (round_env env n) routes s = (a, s')"
    by (cases "validate (round_env env n) routes s")
  have "a = Inr ()"
    using assms validate_verdict [of env n routes s] v by simp
  moreover have "files s' = files s"
    using validate_files [of "round_env env n" routes s] v by simp
  ultimately show ?thesis
    using v by (subst retry_loop.simps) simp
qed

lemma retry_loop_fail:
  assumes "\<not> round_passes env routes n" and "list_all (sync_ok (sync_pass env n)) routes"
  shows "\<exists>s'. retry_loop env routes n s = retry_loop env routes (Suc n) s'
     \<and> map fst (files s') = map fst (files s) @ snapshot_paths routes"
proof -
  obtain a s1 where v: "validate (round_env env n) routes s = (a, s1)"
    by (cases "validate (round_env env n) routes s")
  have "a \<noteq> Inr ()"
    using assms(1) validate_verdict [of env n routes s] v by simp
  then obtain err where a: "a = Inl err"
    by (cases a) simp_all
  have f1: "files s1 = files s"
    using validate_files [of "round_env env n" routes s] v by simp
  from sync_all_ok [OF assms(2), of s1] obtain s' where
    sy: "sync_all (sync_pass env n) routes s1 = (Inr (), s')"
      "map fst (files s') = map fst (files s1) @ snapshot_paths routes"
    by blast
  have "retry_loop env routes n s = retry_loop env routes (Suc n) s'"
    using v a sy(1) by (subst retry_loop.simps) simp
  with sy(2) f1 show ?thesis by auto
qed

lemma retry_loop_first_pass:
  assumes "round_passes env routes n"
    and "\<forall>j. k \<le> j \<and> j < n \<longrightarrow>
          \<not> round_passes env routes j \<and> list_all (sync_ok (sync_pass env j)) routes"
    and "k \<le> n"
  shows "\<exists>s'. retry_loop env routes k s = Some (0, n, s')
     \<and> map fst (files s') = map fst (files s) @ concat (replicate (n - k) (snapshot_paths routes))"
  using assms(2,3)
proof (induction "n - k" arbitrary: k s)
  case 0
  then have "k = n" by simp
  with retry_loop_pass [OF assms(1), of s] show ?case by auto
next
  case (Suc d)
  then have lt: "k < n" and d: "d = n - Suc k" by simp_all
  from Suc.prems(1) lt have
    fail: "\<not> round_passes env routes k" and ok: "list_all (sync_ok (sync_pass env k)) routes"
    by auto
  from retry_loop_fail [OF fail ok, of s] obtain s1 where
    s1: "retry_loop env routes k s = retry_loop env routes (Suc k) s1"
      "map fst (files s1) = map fst (files s) @ snapshot_paths routes"
    by blast
  have "\<exists>s'. retry_loop env routes (Suc k) s1 = Some (0, n, s')
     \<and> map fst (files s') = map fst (files s1)
          @ concat (replicate (n - Suc k) (snapshot_paths routes))"
    by (rule Suc.hyps(1) [OF d]) (use Suc.prems lt in auto)
  then obtain s' where
    s': "retry_loop env routes (Suc k) s1 = Some (0, n, s')"
      "map fst (files s') = map fst (files s1)
          @ concat (replicate (n - Suc k) (snapshot_paths routes))"
    by blast
  have "n - k = Suc (n - Suc k)"
    using lt by simp
  then have "concat (replicate (n - k) (snapshot_paths routes))
      = snapshot_paths routes @ concat (replicate (n - Suc k) (snapshot_paths routes))"
    by simp
  with s1 s' show ?case by simp
qed

lemma retry_loop_ends_only_by_pass:
  assumes "retry_loop env routes k s = Some out"
    and "\<forall>j. k \<le> j \<longrightarrow> list_all (sync_ok (sync_pass env j)) routes"
  shows "\<exists>n s'. out = (0, n, s') \<and> k \<le> n \<and> round_passes env routes n
     \<and> (\<forall>j. k \<le> j \<and> j < n \<longrightarrow> \<not> round_passes env routes j)"
  using assms
proof (induction env routes k s out rule: retry_loop.raw_induct [rotated 1, consumes 1])
  case (1 f env routes k s out)
  show ?case
  proof (cases "round_passes env routes k")
    case True
    obtain a s' where v: "validate (round_env env k) routes s = (a, s')"
      by (cases "validate (round_env env k) routes s")
    have "a = Inr ()"
      using True validate_verdict [of env k routes s] v by simp
    with v "1.hyps" have "out = (0, k, s')" by simp
    with True show ?thesis by auto
  next
    case False
    obtain a s1 where v: "validate (round_env env k) routes s = (a, s1)"
      by (cases "validate (round_env env k) routes s")
    have "a \<noteq> Inr ()"
      using False validate_verdict [of env k routes s] v by simp
    then obtain err where a: "a = Inl err"
      by (cases a) simp_all
    have ok: "list_all (sync_ok (sync_pass env k)) routes"
      using "1.prems" by simp
    from sync_all_ok [OF ok, of s1] obtain s2 where
      sy: "sync_all (sync_pass env k) routes s1 = (Inr (), s2)"
      by blast
    have next_round: "f env routes (Suc k) s2 = Some out"
      using "1.hyps" v a sy by simp
    have "\<exists>n s'. out = (0, n, s') \<and> Suc k \<le> n \<and> round_passes env routes n
       \<and> (\<forall>j. Suc k \<le> j \<and> j < n \<longrightarrow> \<not> round_passes env routes j)"
      by (rule "1.IH" [OF next_round]) (use "1.prems" in auto)
    then obtain n s' where
      n: "out = (0, n, s')" "Suc k \<le> n" "round_passes env routes n"
        "\<forall>j. Suc k \<le> j \<and> j < n \<longrightarrow> \<not> round_passes env routes j"
      by blast
    have "\<forall>j. k \<le> j \<and> j < n \<longrightarrow> \<not> round_passes env routes j"
    proof (intro allI impI)
      fix j assume j: "k \<le> j \<and> j < n"
      show "\<not> round_passes env routes j"
      proof (cases "j = k")
        case True
        with False show ?thesis by simp
      next
        case neq: False
        with j n(4) show ?thesis by auto
      qed
    qed
    with n show ?thesis by auto
  qed
qed

lemma sync_all_not_ok:
  assumes "\<not> list_all (sync_ok env) routes"
  shows "\<exists>e s'. sync_all env routes s = (Inl e, s')"
  using assms
proof (induction routes arbitrary: s)
  case Nil
  then show ?case by simp
next
  case (Cons r rs)
  show ?case
  proof (cases "sync_ok env r")
    case True
    from syncRoute_ok_effect [OF True, of s] obtain s1 where
      step: "syncRoute env r s = (Inr 1, s1)"
      by blast
    from True Cons.prems have "\<not> list_all (sync_ok env) rs"
      by simp
    from Cons.IH [OF this, of s1] obtain e s' where "sync_all env rs s1 = (Inl e, s')"
      by blast
    with step have "sync_all env (r # rs) s = (Inl e, s')"
      by (simp add: sync_all_def)
    then show ?thesis by blast
  next
    case False
    from syncRoute_not_sync_ok [OF False, of s] obtain e where
      "syncRoute env r s = (Inl e, s)"
      by blast
    then have "sync_all env (r # rs) s = (Inl e, s)"
      by (simp add: sync_all_def)
    then show ?thesis by blast
  qed
qed

lemma retry_loop_sync_error:
  assumes "\<not> round_passes env routes n" and "\<not> list_all (sync_ok (sync_pass env n)) routes"
  shows "\<exists>s'. retry_loop env routes n s = Some (1, n, s')"
proof -
  obtain a s1 where v: "validate (round_env env n) routes s = (a, s1)"
    by (cases "validate (round_env env n) routes s")
  have "a \<noteq> Inr ()"
    using assms(1) validate_verdict [of env n routes s] v by simp
  then obtain err where a: "a = Inl err"
    by (cases a) simp_all
  from sync_all_not_ok [OF assms(2), of s1] obtain e s' where
    "sync_all (sync_pass env n) routes s1 = (Inl e, s')"
    by blast
  with v a have "retry_loop env routes n s = Some (1, n, s')"
    by (subst retry_loop.simps) simp
  then show ?thesis by blast
qed

lemma retry_loop_skip_failed:
  assumes "\<forall>j. k \<le> j \<and> j < n \<longrightarrow>
          \<not> round_passes env routes j \<and> list_all (sync_ok (sync_pass env j)) routes"
    and "k \<le> n"
  shows "\<exists>s'. retry_loop env routes k s = retry_loop env routes n s'
     \<and> map fst (files s') = map fst (files s) @ concat (replicate (n - k) (snapshot_paths routes))"
  using assms
proof (induction "n - k" arbitrary: k s)
  case 0
  then have "k = n" by simp
  then show ?case by auto
next
  case (Suc d)
  then have lt: "k < n" and d: "d = n - Suc k" by simp_all
  from Suc.prems(1) lt have
    fail: "\<not> round_passes env routes k" and ok: "list_all (sync_ok (sync_pass env k)) routes"
    by auto
  from retry_loop_fail [OF fail ok, of s] obtain s1 where
    s1: "retry_loop env routes k s = retry_loop env routes (Suc k) s1"
      "map fst (files s1) = map fst (files s) @ snapshot_paths routes"
    by blast
  have "\<exists>s'. retry_loop env routes (Suc k) s1 = retry_loop env routes n s'
     \<and> map fst (files s') = map fst (files s1)
          @ concat (replicate (n - Suc k) (snapshot_paths routes))"
    by (rule Suc.hyps(1) [OF d]) (use Suc.prems lt in auto)
  then obtain s' where
    s': "retry_loop env routes (Suc k) s1 = retry_loop env routes n s'"
      "map fst (files s') = map fst (files s1)
          @ concat (replicate (n - Suc k) (snapshot_paths routes))"
    by blast
  have "n - k = Suc (n - Suc k)"
    using lt by simp
  then have "concat (replicate (n - k) (snapshot_paths routes))
      = snapshot_paths routes @ concat (replicate (n - Suc k) (snapshot_paths routes))"
    by simp
  with s1 s' show ?case by auto
qed

lemma retry_loop_first_sync_error:
  assumes "\<forall>j. k \<le> j \<and> j < n \<longrightarrow>
          \<not> round_passes env routes j \<and> list_all (sync_ok (sync_pass env j)) routes"
    and "k \<le> n"
    and "\<not> round_passes env routes n" and "\<not> list_all (sync_ok (sync_pass env n)) routes"
  shows "\<exists>s'. retry_loop env routes k s = Some (1, n, s')"
proof -
  from retry_loop_skip_failed [OF assms(1,2), of s] obtain s1 where
    "retry_loop env routes k s = retry_loop env routes n s1"
    by blast
  with retry_loop_sync_error [OF assms(3,4), of s1] show ?thesis by auto
qed

lemma main_enters_loop:
  assumes "discoverRoutes (discovery env) = Inr routes"
    and "list_all (sync_ok (sync_pass env 0)) routes"
  shows "\<exists>s1. main env s = retry_loop env routes 1 s1"
proof -
  from sync_all_ok [OF assms(2), of "rm_dist s"] obtain s1 where
    "sync_all (sync_pass env 0) routes (rm_dist s) = (Inr (), s1)"
    by blast
  with assms(1) have "main env s = retry_loop env routes 1 s1"
    by (simp add: main_def)
  then show ?thesis by blast
qed

text \<open>
  C5 (as the code has it).  Provided every re-synchronization pass succeeds for every
  Route, the loop ends only with exit code 0 and only at the first round that passes.
  It does end there: when the rounds before round \<open>n\<close> fail, the passes that follow
  them succeed and round \<open>n\<close> passes, exactly \<open>n\<close> rounds run, each failed round is
  followed by one Snapshot write for every Route in order, and the exit code is 0; so when
  the first round fails and the second passes, exactly two rounds run.  When no round
  passes and every pass succeeds, the loop does not end.  When a round fails and the pass
  that follows it does not succeed, the process exits with code 1 after that round.
\<close>

theorem unbounded_retry_until_pass:
  "((\<forall>j. 1 \<le> j \<longrightarrow> list_all (sync_ok (sync_pass env j)) routes) \<longrightarrow>
      (\<forall>out. retry_loop env routes 1 s = Some out \<longrightarrow>
        (\<exists>n s'. out = (0, n, s') \<and> 1 \<le> n \<and> round_passes env routes n
           \<and> (\<forall>j. 1 \<le> j \<and> j < n \<longrightarrow> \<not> round_passes env routes j))))
   \<and> (\<forall>n. 1 \<le> n \<and> round_passes env routes n
          \<and> (\<forall>j. 1 \<le> j \<and> j < n \<longrightarrow>
                \<not> round_passes env routes j \<and> list_all (sync_ok (sync_pass env j)) routes) \<longrightarrow>
        (\<exists>s'. retry_loop env routes 1 s = Some (0, n, s')
           \<and> map fst (files s')
               = map fst (files s) @ concat (replicate (n - 1) (snapshot_paths routes))))
   \<and> (\<not> round_passes env routes 1 \<and> list_all (sync_ok (sync_pass env 1)) routes
        \<and> round_passes env routes 2 \<longrightarrow>
        (\<exists>s'. retry_loop env routes 1 s = Some (0, 2, s')
           \<and> map fst (files s') = map fst (files s) @ snapshot_paths routes))
   \<and> ((\<forall>j. 1 \<le> j \<longrightarrow>
          \<not> round_passes env routes j \<and> list_all (sync_ok (sync_pass env j)) routes) \<longrightarrow>
        retry_loop env routes 1 s = None)
   \<and> (\<forall>n. 1 \<le> n \<and> \<not> list_all (sync_ok (sync_pass env n)) routes
          \<and> (\<forall>j. 1 \<le> j \<and> j \<le> n \<longrightarrow> \<not> round_passes env routes j)
          \<and> (\<forall>j. 1 \<le> j \<and> j < n \<longrightarrow> list_all (sync_ok (sync_pass env j)) routes) \<longrightarrow>
        (\<exists>s'. retry_loop env routes 1 s = Some (1, n, s')))"
proof (intro conjI allI impI)
  fix out
  assume "\<forall>j. 1 \<le> j \<longrightarrow> list_all (sync_ok (sync_pass env j)) routes"
    and "retry_loop env routes 1 s = Some out"
  then show "\<exists>n s'. out = (0, n, s') \<and> 1 \<le> n \<and> round_passes env routes n
      \<and> (\<forall>j. 1 \<le> j \<and> j < n \<longrightarrow> \<not> round_passes env routes j)"
    by (intro retry_loop_ends_only_by_pass)
next
  fix n
  assume n: "1 \<le> n \<and> round_passes env routes n
      \<and> (\<forall>j. 1 \<le> j \<and> j < n \<longrightarrow>
            \<not> round_passes env routes j \<and> list_all (sync_ok (sync_pass env j)) routes)"
  show "\<exists>s'. retry_loop env routes 1 s = Some (0, n, s')
      \<and> map fst (files s')
          = map fst (files s) @ concat (replicate (n - 1) (snapshot_paths routes))"
    by (rule retry_loop_first_pass) (use n in auto)
next
  assume two: "\<not> round_passes env routes 1 \<and> list_all (sync_ok (sync_pass env 1)) routes
      \<and> round_passes env routes 2"
  have "\<exists>s'. retry_loop env routes 1 s = Some (0, 2, s')
      \<and> map fst (files s')
          = map fst (files s) @ concat (replicate (2 - 1) (snapshot_paths routes))"
  proof (rule retry_loop_first_pass)
    show "round_passes env routes 2" using two by simp
    show "\<forall>j. 1 \<le> j \<and> j < 2 \<longrightarrow>
        \<not> round_passes env routes j \<and> list_all (sync_ok (sync_pass env j)) routes"
    proof (intro allI impI)
      fix j :: nat
      assume "1 \<le> j \<and> j < 2"
      then have "j = 1" by simp
      with two show
        "\<not> round_passes env routes j \<and> list_all (sync_ok (sync_pass env j)) routes"
        by simp
    qed
    show "(1::nat) \<le> 2" by simp
  qed
  then show "\<exists>s'. retry_loop env routes 1 s = Some (0, 2, s')
      \<and> map fst (files s') = map fst (files s) @ snapshot_paths routes"
    by simp
next
  assume never: "\<forall>j. 1 \<le> j \<longrightarrow>
      \<not> round_passes env routes j \<and> list_all (sync_ok (sync_pass env j)) routes"
  then have syncs: "\<forall>j. 1 \<le> j \<longrightarrow> list_all (sync_ok (sync_pass env j)) routes"
    by simp
  show "retry_loop env routes 1 s = None"
  proof (cases "retry_loop env routes 1 s")
    case None
    then show ?thesis .
  next
    case (Some out)
    from retry_loop_ends_only_by_pass [OF Some syncs] never show ?thesis
      by blast
  qed
next
  fix n
  assume n: "1 \<le> n \<and> \<not> list_all (sync_ok (sync_pass env n)) routes
      \<and> (\<forall>j. 1 \<le> j \<and> j \<le> n \<longrightarrow> \<not> round_passes env routes j)
      \<and> (\<forall>j. 1 \<le> j \<and> j < n \<longrightarrow> list_all (sync_ok (sync_pass env j)) routes)"
  show "\<exists>s'. retry_loop env routes 1 s = Some (1, n, s')"
    by (rule retry_loop_first_sync_error) (use n in auto)
qed

theorem unbounded_retry_until_pass_witness:
  "\<not> round_passes fails_once [[], ''about-us''] 1 \<and> round_passes fails_once [[], ''about-us''] 2
   \<and> list_all (sync_ok (sync_pass fails_once 1)) [[], ''about-us'']
   \<and> (\<exists>s'. retry_loop fails_once [[], ''about-us''] 1 state0 = Some (0, 2, s')
         \<and> map fst (files s') = [''dist/index.html'', ''dist/about-us/index.html''])"
proof -
  have sync: "list_all (sync_ok (sync_pass fails_once 1)) [[], ''about-us'']"
    by (simp add: fails_once_def site_env_def sync_ok_def)
  have first: "\<not> round_passes fails_once [[], ''about-us''] 1"
    by (simp add: round_passes_def fails_once_def round_defs const_defs all_pixels_differ_def
        passing_env_def)
  have second: "round_passes fails_once [[], ''about-us''] 2"
    by (simp add: round_passes_def fails_once_def round_defs const_defs passing_env_def)
  have paths: "map fst (files state0) @ snapshot_paths [[], ''about-us'']
      = [''dist/index.html'', ''dist/about-us/index.html'']"
    by (simp add: state0_def snapshot_paths_def path_defs DIST_DIR_def)
  from unbounded_retry_until_pass [of fails_once "[[], ''about-us'']" state0] first sync second
  have "\<exists>s'. retry_loop fails_once [[], ''about-us''] 1 state0 = Some (0, 2, s')
      \<and> map fst (files s') = map fst (files state0) @ snapshot_paths [[], ''about-us'']"
    by blast
  with first second sync paths show ?thesis by simp
qed

text \<open>
  C5 as stated fails: when the first round fails and the live site cannot be fetched by
  the re-synchronization that follows, the loop ends after that one round, no round
  having passed, and the process exits with code 1.
\<close>

theorem unbounded_retry_exits_on_sync_error_counterexample:
  "\<not> round_passes site_down_after_first_round [[], ''about-us''] 1
   \<and> map_option (\<lambda>(code, rounds, s). (code, rounds))
        (retry_loop site_down_after_first_round [[], ''about-us''] 1 state0) = Some (1, 1)
   \<and> discoverRoutes (discovery site_down_after_first_round) = Inr [[], ''about-us'']
   \<and> map_option (\<lambda>(code, rounds, s). (code, rounds))
        (main site_down_after_first_round state0) = Some (1, 1)"
proof -
  have first: "\<not> round_passes site_down_after_first_round [[], ''about-us''] 1"
    by (simp add: round_passes_def site_down_after_first_round_def fails_once_def round_defs
        const_defs all_pixels_differ_def passing_env_def)
  have sync: "fst (sync_all (sync_pass site_down_after_first_round 1) [[], ''about-us''] t)
      = Inl (FetchFailed ''https://genaiglobal.org'')" for t
    by (simp add: sync_all_def syncRoute_def fetchText_def site_down_after_first_round_def
        fails_once_def site_env_def route_url_def strip_trailing_slash_def BASE_URL_def)
  have loop: "map_option (\<lambda>(code, rounds, s). (code, rounds))
      (retry_loop site_down_after_first_round [[], ''about-us''] 1 t) = Some (1, 1)" for t
  proof -
    obtain a t1 where v: "validate (round_env site_down_after_first_round 1) [[], ''about-us''] t
        = (a, t1)"
      by (cases "validate (round_env site_down_after_first_round 1) [[], ''about-us''] t")
    have "a \<noteq> Inr ()"
      using first validate_verdict [of site_down_after_first_round 1 "[[], ''about-us'']" t] v
      by simp
    then obtain err where a: "a = Inl err"
      by (cases a) simp_all
    obtain t2 where
      sy: "sync_all (sync_pass site_down_after_first_round 1) [[], ''about-us''] t1
        = (Inl (FetchFailed ''https://genaiglobal.org''), t2)"
      using sync [of t1]
      by (cases "sync_all (sync_pass site_down_after_first_round 1) [[], ''about-us''] t1") simp
    show ?thesis
      using v a sy by (subst retry_loop.simps) simp
  qed
  have routes: "discoverRoutes (discovery site_down_after_first_round) = Inr [[], ''about-us'']"
    by (simp add: discoverRoutes_def read_index_def fetchText_def site_down_after_first_round_def
        fails_once_def index_env_def array_from_set_def set_add_def normalize_loc_def
        strip_leading_slash_def strip_trailing_slash_def BASE_URL_def)
  have initial: "list_all (sync_ok (sync_pass site_down_after_first_round 0)) [[], ''about-us'']"
    by (simp add: site_down_after_first_round_def fails_once_def site_env_def sync_ok_def)
  from main_enters_loop [OF routes initial, of state0] obtain s1 where
    "main site_down_after_first_round state0
      = retry_loop site_down_after_first_round [[], ''about-us''] 1 s1"
    by blast
  with loop [of s1] loop [of state0] first routes show ?thesis by simp
qed

end
